theory Spec2Isabelle
  imports Complex_Main "HOL-Library.Log_Nat"
begin

section \<open>JavaScript numbers and operators\<close>

text \<open>
  The heading engine is the second \<^verbatim>\<open>OrientationManager\<close> class of the repository
  (the version with the smoothing buffer). Its numbers are JavaScript numbers, that is
  IEEE 754 binary64 values. A number is modelled by the rational it denotes. The sensor
  readings \<^verbatim>\<open>alpha\<close>, \<^verbatim>\<open>beta\<close>, \<^verbatim>\<open>gamma\<close> are finite doubles or \<^verbatim>\<open>null\<close>. Where the
  code adds to or subtracts from a reading (\<^verbatim>\<open>rawBeta - 90\<close>, \<^verbatim>\<open>360 - event.alpha\<close>,
  \<^verbatim>\<open>azimuth + 180\<close>), the exact result is rounded to the nearest double by \<open>fl\<close>
  below. \<^verbatim>\<open>Math.round\<close> and \<^verbatim>\<open>%\<close> return their exact results, which are doubles.
  Values produced by \<^verbatim>\<open>Math.round\<close> are integers and are kept as \<^typ>\<open>int\<close>. In the
  smoother and in the cardinal direction the operands are those integers: their sums are
  exact, and the one division is modelled exactly.
\<close>

text \<open>
  Rounding to the binary64 format, round to nearest, ties to even. \<open>rne\<close> rounds a
  rational to an integer that way; \<open>expo x\<close> is the binary exponent of a positive \<open>x\<close>
  (the \<open>e\<close> with \<open>2\<^sup>e \<le> x < 2\<^sup>e\<^sup>+\<^sup>1\<close>), found from the bit lengths of numerator and
  denominator; \<open>ulp x\<close> is the spacing of the doubles around \<open>x\<close>, with 53 significant
  bits and the exponent held at -1022 for subnormal numbers. No operand of the source
  comes near the overflow threshold, so infinities are not modelled.
\<close>

definition rne :: "rat \<Rightarrow> int" where
  "rne y =
     (let f = \<lfloor>y\<rfloor>; d = y - of_int f
      in if d < 1 / 2 then f else if 1 / 2 < d then f + 1 else if even f then f else f + 1)"

definition expo :: "rat \<Rightarrow> int" where
  "expo x =
     (let (p, q) = quotient_of x; d = bitlen p - bitlen q
      in if 2 powi d \<le> x then d else d - 1)"

definition ulp :: "rat \<Rightarrow> rat" where
  "ulp x = 2 powi (max (expo x) (- 1022) - 52)"

definition flp :: "rat \<Rightarrow> rat" where
  "flp x = ulp x * of_int (rne (x / ulp x))"

definition fl :: "rat \<Rightarrow> rat" where
  "fl x = (if x < 0 then - flp (- x) else flp x)"

text \<open>\<^verbatim>\<open>Math.round(x)\<close>: the nearest integer, a tie going to the larger one.\<close>

definition Math_round :: "rat \<Rightarrow> int" where
  "Math_round x = \<lfloor>x + 1 / 2\<rfloor>"

text \<open>
  \<^verbatim>\<open>x % m\<close>: the remainder of the division truncated towards zero, so the result has
  the sign of \<^verbatim>\<open>x\<close>. The source only ever divides by the constants 360 and 16.
\<close>

definition js_trunc :: "rat \<Rightarrow> int" where
  "js_trunc x = (if x < 0 then \<lceil>x\<rceil> else \<lfloor>x\<rfloor>)"

definition js_rem :: "rat \<Rightarrow> rat \<Rightarrow> rat" where
  "js_rem x m = x - m * of_int (js_trunc (x / m))"

text \<open>
  \<^verbatim>\<open>xs[i]\<close> for a number \<^verbatim>\<open>i\<close>: the element when \<^verbatim>\<open>i\<close> is an integer index inside the
  array, \<^verbatim>\<open>undefined\<close> (here \<open>None\<close>) otherwise.
\<close>

definition js_index :: "'a list \<Rightarrow> rat \<Rightarrow> 'a option" where
  "js_index xs i =
     (if of_int \<lfloor>i\<rfloor> = i \<and> 0 \<le> i \<and> nat \<lfloor>i\<rfloor> < length xs then Some (xs ! nat \<lfloor>i\<rfloor>) else None)"

text \<open>
  \<^verbatim>\<open>p > 45\<close> where \<^verbatim>\<open>p\<close> may still be \<^verbatim>\<open>null\<close>: JavaScript converts \<^verbatim>\<open>null\<close> to 0, so the
  comparison is false.
\<close>

definition js_gt :: "int option \<Rightarrow> int \<Rightarrow> bool" where
  "js_gt p k = (case p of None \<Rightarrow> False | Some v \<Rightarrow> v > k)"

section \<open>Data model\<close>

text \<open>
  The event object handed to the listeners. \<open>None\<close> is \<^verbatim>\<open>null\<close> for \<open>alpha\<close>, \<open>beta\<close>
  and \<open>gamma\<close>. \<open>webkitCompassHeading\<close> is a property only some platforms define: it is
  \<^verbatim>\<open>undefined\<close> when absent, and the code tests it against \<^verbatim>\<open>undefined\<close> only, so a
  property that is present but \<^verbatim>\<open>null\<close> is a third case.
\<close>

datatype heading = Undefined | Null | Number rat

record DeviceOrientationEvent =
  alpha :: "rat option"
  beta :: "rat option"
  gamma :: "rat option"
  webkitCompassHeading :: heading

text \<open>
  The fields of \<^verbatim>\<open>OrientationManager\<close>. \<^verbatim>\<open>bufferSize\<close> is assigned 5 in the
  constructor and never assigned again, so it is a constant of the model.
\<close>

record OrientationManager =
  azimuth :: "int option"
  pitch :: "int option"
  isTracking :: bool
  hasReceivedData :: bool
  azimuthBuffer :: "int list"
  smoothedAzimuth :: "int option"

definition bufferSize :: nat where
  "bufferSize = 5"

text \<open>The state the constructor builds, before \<^verbatim>\<open>init()\<close> registers the listeners.\<close>

definition constructor :: OrientationManager where
  "constructor =
     \<lparr>azimuth = None, pitch = None, isTracking = False, hasReceivedData = False,
      azimuthBuffer = [], smoothedAzimuth = None\<rparr>"

text \<open>
  What the handlers reach outside the manager. The page: the elements with the ids
  \<^verbatim>\<open>azimuth\<close> and \<^verbatim>\<open>pitch\<close>, \<open>None\<close> when \<^verbatim>\<open>getElementById\<close> finds none, otherwise the
  text of the element; a text is kept by its parts, \<open>AzimuthText a d\<close> for
  \<^verbatim>\<open>Azimuth: a (d)\<close> with the degree sign after \<^verbatim>\<open>a\<close>, \<open>PitchText p\<close> for \<^verbatim>\<open>Pitch: p\<close>, and
  \<open>Markup\<close> for what the page held before. The map: \<^verbatim>\<open>window.mapManager\<close>, \<open>None\<close> while
  it is not set, otherwise an instance of the class \<^verbatim>\<open>MapManager\<close>. Both versions of
  that class in the repository define \<^verbatim>\<open>init\<close>, \<^verbatim>\<open>onMapClick\<close>, \<^verbatim>\<open>updateUserLocation\<close>,
  \<^verbatim>\<open>centerMap\<close>, \<^verbatim>\<open>addMarker\<close>, \<^verbatim>\<open>addCustomPin\<close>, \<^verbatim>\<open>removeMarker\<close> and \<^verbatim>\<open>getMap\<close>, and
  nothing else.
\<close>

datatype pageText = Markup | AzimuthText int "string option" | PitchText int

datatype MapManager = MapManager

record window =
  azimuthElement :: "pageText option"
  pitchElement :: "pageText option"
  mapManager :: "MapManager option"

text \<open>How a call ends: normally, or by throwing.\<close>

datatype js_error = TypeError

datatype completion = Normal | Throw js_error

record outcome =
  manager :: OrientationManager
  page :: window
  completion :: completion

section \<open>Cardinal direction\<close>

definition directions :: "string list" where
  "directions =
     [''N'', ''NNE'', ''NE'', ''ENE'', ''E'', ''ESE'', ''SE'', ''SSE'',
      ''S'', ''SSW'', ''SW'', ''WSW'', ''W'', ''WNW'', ''NW'', ''NNW'']"

definition getCardinalDirection :: "rat \<Rightarrow> string option" where
  "getCardinalDirection az =
     (let index = js_rem (of_int (Math_round (az / (45 / 2)))) 16
      in js_index directions index)"

section \<open>Smoothing\<close>

text \<open>
  The three steps of \<^verbatim>\<open>smoothAzimuth\<close> after the buffer has been updated: the
  wraparound test, the normalised copy of the buffer, and the average. The sum is the
  \<^verbatim>\<open>reduce\<close> from 0, the division is by the length of the buffer.
\<close>

definition hasWraparound :: "int list \<Rightarrow> bool" where
  "hasWraparound buf = (list_ex (\<lambda>v. v < 90) buf \<and> list_ex (\<lambda>v. v > 270) buf)"

definition normalized :: "int list \<Rightarrow> int list" where
  "normalized buf = map (\<lambda>v. if v < 180 then v + 360 else v) buf"

definition average :: "int list \<Rightarrow> rat" where
  "average buf =
     (if hasWraparound buf
      then js_rem (of_int (sum_list (normalized buf)) / of_nat (length (normalized buf))) 360
      else of_int (sum_list buf) / of_nat (length buf))"

text \<open>
  \<^verbatim>\<open>push\<close>, then one \<^verbatim>\<open>shift\<close> when the buffer has grown past \<^verbatim>\<open>bufferSize\<close>. The
  buffer holds at least the new reading when the average is taken, so the division is
  never by zero.
\<close>

definition pushShift :: "int list \<Rightarrow> int \<Rightarrow> int list" where
  "pushShift buf newAzimuth =
     (let pushed = buf @ [newAzimuth]
      in if length pushed > bufferSize then tl pushed else pushed)"

definition smoothAzimuth :: "OrientationManager \<Rightarrow> int \<Rightarrow> OrientationManager \<times> int" where
  "smoothAzimuth this newAzimuth =
     (let buf = pushShift (azimuthBuffer this) newAzimuth
      in (this\<lparr>azimuthBuffer := buf\<rparr>, Math_round (average buf)))"

section \<open>Display and map marker\<close>

text \<open>
  \<^verbatim>\<open>updateDisplay\<close> writes the azimuth with its direction and the pitch into the page,
  each when the value is not null and the element exists. A direction that is
  \<^verbatim>\<open>undefined\<close> is printed as such. Nothing in it can throw.
\<close>

definition updateDisplay :: "window \<Rightarrow> OrientationManager \<Rightarrow> window" where
  "updateDisplay w this =
     (let w1 =
        (case (azimuth this, azimuthElement w) of
           (Some a, Some t) \<Rightarrow>
             w\<lparr>azimuthElement := Some (AzimuthText a (getCardinalDirection (of_int a)))\<rparr>
         | _ \<Rightarrow> w)
      in case (pitch this, pitchElement w1) of
           (Some p, Some t) \<Rightarrow> w1\<lparr>pitchElement := Some (PitchText p)\<rparr>
         | _ \<Rightarrow> w1)"

text \<open>
  \<^verbatim>\<open>updateMapMarker\<close> calls \<^verbatim>\<open>window.mapManager.updateUserLocationRotation\<close> with the
  smoothed azimuth when the map manager is set and the smoothed azimuth is not null.
  \<^verbatim>\<open>MapManager\<close> has no such method, so the property is \<^verbatim>\<open>undefined\<close> and the call
  throws a \<^verbatim>\<open>TypeError\<close>.
\<close>

definition updateMapMarker :: "window \<Rightarrow> OrientationManager \<Rightarrow> completion" where
  "updateMapMarker w this =
     (case (mapManager w, smoothedAzimuth this) of
        (Some MapManager, Some s) \<Rightarrow> Throw TypeError
      | _ \<Rightarrow> Normal)"

text \<open>
  The two calls that close both handlers, \<^verbatim>\<open>this.updateDisplay()\<close> and then
  \<^verbatim>\<open>this.updateMapMarker()\<close>: the fields are the ones assigned before, the page is the
  one \<^verbatim>\<open>updateDisplay\<close> leaves, and the handler ends the way \<^verbatim>\<open>updateMapMarker\<close> does.
\<close>

definition closingCalls :: "OrientationManager \<Rightarrow> window \<Rightarrow> outcome" where
  "closingCalls this w =
     (let w1 = updateDisplay w this
      in \<lparr>manager = this, page = w1, completion = updateMapMarker w1 this\<rparr>)"

section \<open>Ingestion\<close>

text \<open>The pitch block shared word for word by the two handlers.\<close>

definition setPitch :: "OrientationManager \<Rightarrow> rat option \<Rightarrow> OrientationManager" where
  "setPitch this rawBeta =
     (case rawBeta of
        None \<Rightarrow> this
      | Some b \<Rightarrow>
          (let p0 = Math_round (fl (b - 90));
               p1 = (if p0 > 90 then 90 else p0);
               p2 = (if p1 < - 90 then - 90 else p1)
           in this\<lparr>pitch := Some p2\<rparr>))"

text \<open>
  The two closing statements of every azimuth branch: store the rounded azimuth, then
  smooth it.
\<close>

definition storeAzimuth :: "OrientationManager \<Rightarrow> rat \<Rightarrow> OrientationManager" where
  "storeAzimuth this az =
     (let this1 = this\<lparr>azimuth := Some (Math_round az)\<rparr>;
          (this2, s) = smoothAzimuth this1 (Math_round az)
      in this2\<lparr>smoothedAzimuth := Some s\<rparr>)"

definition markReceived :: "OrientationManager \<Rightarrow> OrientationManager" where
  "markReceived this = (if \<not> hasReceivedData this then this\<lparr>hasReceivedData := True\<rparr> else this)"

definition handleOrientationAbsolute ::
    "OrientationManager \<Rightarrow> window \<Rightarrow> DeviceOrientationEvent \<Rightarrow> outcome" where
  "handleOrientationAbsolute this w event =
     (let this1 = markReceived this;
          rawAlpha = alpha event;
          rawBeta = beta event;
          this2 = setPitch this1 rawBeta;
          this3 =
            (case (rawAlpha, rawBeta) of
               (Some a, Some b) \<Rightarrow>
                 storeAzimuth this2
                   (if js_gt (pitch this2) 45 then js_rem (fl (a + 180)) 360 else a)
             | _ \<Rightarrow> this2)
      in closingCalls this3 w)"

text \<open>
  The initial value of the local \<^verbatim>\<open>azimuth\<close> in the last branch of
  \<^verbatim>\<open>handleOrientation\<close>: the heading approximated from a device-relative \<^verbatim>\<open>alpha\<close>.
\<close>

definition fallbackCandidate :: "rat \<Rightarrow> rat" where
  "fallbackCandidate a = fl (360 - a)"

text \<open>
  In the compass branch a heading that is \<^verbatim>\<open>null\<close> counts as the number 0:
  \<^verbatim>\<open>null + 180\<close> is 180 and \<^verbatim>\<open>Math.round(null)\<close> is 0.
\<close>

definition handleOrientation ::
    "OrientationManager \<Rightarrow> window \<Rightarrow> DeviceOrientationEvent \<Rightarrow> outcome" where
  "handleOrientation this w event =
     (let this1 = markReceived this;
          rawBeta = beta event;
          this2 = setPitch this1 rawBeta;
          this3 =
            (case webkitCompassHeading event of
               Number h \<Rightarrow>
                 storeAzimuth this2
                   (if js_gt (pitch this2) 45 then js_rem (fl (h + 180)) 360 else h)
             | Null \<Rightarrow>
                 storeAzimuth this2
                   (if js_gt (pitch this2) 45 then js_rem (fl (0 + 180)) 360 else 0)
             | Undefined \<Rightarrow>
                 (case alpha event of
                    Some a \<Rightarrow>
                      (let az = fallbackCandidate a
                       in storeAzimuth this2
                            (if js_gt (pitch this2) 45 then js_rem (fl (az + 180)) 360 else az))
                  | None \<Rightarrow> this2))
      in closingCalls this3 w)"

text \<open>
  The two listeners that \<^verbatim>\<open>startTracking\<close> registers: each sets \<^verbatim>\<open>hasReceivedData\<close> and
  calls its handler. When a handler throws, the browser reports the error; the
  assignments made before stay and later events are still delivered. A stream of
  samples is a list of tagged events, processed in order from a manager and a window.
\<close>

datatype sample =
    DeviceOrientationAbsolute DeviceOrientationEvent
  | DeviceOrientation DeviceOrientationEvent

fun listener :: "OrientationManager \<times> window \<Rightarrow> sample \<Rightarrow> OrientationManager \<times> window" where
  "listener (this, w) (DeviceOrientationAbsolute event) =
     (let r = handleOrientationAbsolute (this\<lparr>hasReceivedData := True\<rparr>) w event
      in (manager r, page r))"
| "listener (this, w) (DeviceOrientation event) =
     (let r = handleOrientation (this\<lparr>hasReceivedData := True\<rparr>) w event
      in (manager r, page r))"

definition ingestAll ::
    "OrientationManager \<times> window \<Rightarrow> sample list \<Rightarrow> OrientationManager \<times> window" where
  "ingestAll world samples = foldl listener world samples"

text \<open>Feeding a list of raw azimuths to the smoother, one call of \<^verbatim>\<open>smoothAzimuth\<close> each.\<close>

definition feed :: "OrientationManager \<Rightarrow> int list \<Rightarrow> OrientationManager" where
  "feed this xs = foldl (\<lambda>s x. fst (smoothAzimuth s x)) this xs"

section \<open>The vocabulary of the statements\<close>

text \<open>
  The definitions of this section follow the words of the specification, not the code;
  the theorems compare them with the code. \<open>rmod\<close> is the mathematical remainder,
  always in \<open>[0, m)\<close> for a positive \<open>m\<close>.
\<close>

definition rmod :: "rat \<Rightarrow> rat \<Rightarrow> rat" where
  "rmod x m = x - m * of_int \<lfloor>x / m\<rfloor>"

definition mean :: "int list \<Rightarrow> rat" where
  "mean xs = of_int (sum_list xs) / of_nat (length xs)"

text \<open>
  Smoothing as specified: the plain mean, unless one value is below 90 and one above
  270; then 360 is added to every value below 180 and the mean is reduced modulo 360.
  The result is rounded to the nearest integer.
\<close>

definition specSmooth :: "int list \<Rightarrow> int" where
  "specSmooth buf =
     (if (\<exists>v \<in> set buf. v < 90) \<and> (\<exists>v \<in> set buf. v > 270)
      then round (rmod (mean (map (\<lambda>v. if v < 180 then v + 360 else v) buf)) 360)
      else round (mean buf))"

text \<open>
  Tilt compensation as specified: with a pitch above 45 the candidate is turned by 180
  degrees modulo 360, otherwise it is left alone. A pitch that is still null is not
  above 45.
\<close>

definition specTilt :: "int option \<Rightarrow> rat \<Rightarrow> rat" where
  "specTilt p candidate =
     (case p of
        None \<Rightarrow> candidate
      | Some v \<Rightarrow> if v > 45 then rmod (candidate + 180) 360 else candidate)"

text \<open>
  Tilt compensation as the three branches of the code write it, the sum being a
  double: the value that is then rounded and stored.
\<close>

definition compensated :: "int option \<Rightarrow> rat \<Rightarrow> rat" where
  "compensated p candidate =
     (case p of
        None \<Rightarrow> candidate
      | Some v \<Rightarrow> if v > 45 then rmod (fl (candidate + 180)) 360 else candidate)"

text \<open>The pitch as the code derives it from a \<open>beta\<close>, and as the specification does.\<close>

definition pitchOf :: "rat \<Rightarrow> int" where
  "pitchOf b = max (- 90) (min 90 (round (fl (b - 90))))"

definition specPitch :: "rat \<Rightarrow> int" where
  "specPitch b = max (- 90) (min 90 (round (b - 90)))"

text \<open>
  Two windows for the examples: the page once it has loaded, with both elements and
  \<^verbatim>\<open>window.mapManager = new MapManager()\<close>, and a window with neither.
\<close>

definition loadedWindow :: window where
  "loadedWindow =
     \<lparr>azimuthElement = Some Markup, pitchElement = Some Markup, mapManager = Some MapManager\<rparr>"

definition bareWindow :: window where
  "bareWindow = \<lparr>azimuthElement = None, pitchElement = None, mapManager = None\<rparr>"

text \<open>
  The samples the claims are about: \<open>alpha\<close> and the platform compass heading, when
  they are numbers, are angles between 0 and 360 degrees. \<open>beta\<close> is not restricted.
\<close>

definition angle :: "rat \<Rightarrow> bool" where
  "angle a = (0 \<le> a \<and> a \<le> 360)"

definition validEvent :: "DeviceOrientationEvent \<Rightarrow> bool" where
  "validEvent event =
     ((case alpha event of None \<Rightarrow> True | Some a \<Rightarrow> angle a) \<and>
      (case webkitCompassHeading event of Number h \<Rightarrow> angle h | _ \<Rightarrow> True))"

fun validSample :: "sample \<Rightarrow> bool" where
  "validSample (DeviceOrientationAbsolute event) = validEvent event"
| "validSample (DeviceOrientation event) = validEvent event"

text \<open>A stored angle that is null or an integer between 0 and 360, both included.\<close>

definition closedRange :: "int option \<Rightarrow> bool" where
  "closedRange x = (case x of None \<Rightarrow> True | Some a \<Rightarrow> 0 \<le> a \<and> a \<le> 360)"

definition pitchRange :: "int option \<Rightarrow> bool" where
  "pitchRange x = (case x of None \<Rightarrow> True | Some p \<Rightarrow> - 90 \<le> p \<and> p \<le> 90)"

text \<open>
  What every handler keeps when the samples are valid: stored angles in the closed range,
  the pitch in its range, at most five buffered readings, each of them in the closed
  range.
\<close>

definition rangeInvariant :: "OrientationManager \<Rightarrow> bool" where
  "rangeInvariant this = (closedRange (azimuth this) \<and> closedRange (smoothedAzimuth this) \<and>
     pitchRange (pitch this) \<and> length (azimuthBuffer this) \<le> 5 \<and>
     (\<forall>v \<in> set (azimuthBuffer this). 0 \<le> v \<and> v \<le> 360))"

section \<open>Rounding to a double\<close>

lemma rne_of_int: "rne (of_int n) = n"
  by (simp add: rne_def)

lemma rne_mono: "y \<le> z \<Longrightarrow> rne y \<le> rne z"
proof -
  assume yz: "y \<le> z"
  then have f: "\<lfloor>y\<rfloor> \<le> \<lfloor>z\<rfloor>" by (rule floor_mono)
  show ?thesis
  proof (cases "\<lfloor>y\<rfloor> = \<lfloor>z\<rfloor>")
    case True
    then have "y - of_int \<lfloor>y\<rfloor> \<le> z - of_int \<lfloor>z\<rfloor>" using yz by simp
    then show ?thesis using True by (auto simp: rne_def Let_def)
  next
    case False
    then have "\<lfloor>y\<rfloor> + 1 \<le> \<lfloor>z\<rfloor>" using f by simp
    moreover have "rne y \<le> \<lfloor>y\<rfloor> + 1" by (simp add: rne_def Let_def)
    moreover have "\<lfloor>z\<rfloor> \<le> rne z" by (simp add: rne_def Let_def)
    ultimately show ?thesis by linarith
  qed
qed

lemma rne_nonneg: "0 \<le> y \<Longrightarrow> 0 \<le> rne y"
  using rne_mono [of 0 y] rne_of_int [of 0] by simp

text \<open>The exponent brackets a positive number between two powers of two.\<close>

lemma expo_bounds:
  assumes "0 < x"
  shows "2 powi expo x \<le> x" and "x < 2 powi (expo x + 1)"
proof -
  obtain p q where pq: "quotient_of x = (p, q)" by (cases "quotient_of x")
  then have q: "0 < q" using quotient_of_denom_pos by blast
  have x: "x = of_int p / of_int q" using pq by (rule quotient_of_div)
  have p: "0 < p" using assms q x by (simp add: zero_less_divide_iff)
  define d where "d = bitlen p - bitlen q"
  have bp: "1 \<le> bitlen p" and bq: "1 \<le> bitlen q"
    using p q bitlen_eq_zero_iff [of p] bitlen_eq_zero_iff [of q] bitlen_nonneg [of p]
      bitlen_nonneg [of q] by linarith+
  have p1: "(2::rat) powi (bitlen p - 1) \<le> of_int p" and p2: "of_int p < (2::rat) powi bitlen p"
  proof -
    have "2 ^ nat (bitlen p - 1) \<le> p" "p < 2 ^ nat (bitlen p)"
      using bitlen_bounds [OF p] by simp_all
    then have "(of_int (2 ^ nat (bitlen p - 1)) :: rat) \<le> of_int p"
      "(of_int p :: rat) < of_int (2 ^ nat (bitlen p))"
      by (simp_all only: of_int_le_iff of_int_less_iff)
    then show "(2::rat) powi (bitlen p - 1) \<le> of_int p" "of_int p < (2::rat) powi bitlen p"
      using bp by (simp_all add: power_int_def)
  qed
  have q1: "(2::rat) powi (bitlen q - 1) \<le> of_int q" and q2: "of_int q < (2::rat) powi bitlen q"
  proof -
    have "2 ^ nat (bitlen q - 1) \<le> q" "q < 2 ^ nat (bitlen q)"
      using bitlen_bounds [OF q] by simp_all
    then have "(of_int (2 ^ nat (bitlen q - 1)) :: rat) \<le> of_int q"
      "(of_int q :: rat) < of_int (2 ^ nat (bitlen q))"
      by (simp_all only: of_int_le_iff of_int_less_iff)
    then show "(2::rat) powi (bitlen q - 1) \<le> of_int q" "of_int q < (2::rat) powi bitlen q"
      using bq by (simp_all add: power_int_def)
  qed
  have qpos: "(0::rat) < of_int q" using q by simp
  have lo: "2 powi (d - 1) < x"
  proof -
    have d1: "d - 1 = bitlen p - 1 - bitlen q" by (simp add: d_def)
    have "(2::rat) powi (d - 1) = 2 powi (bitlen p - 1 - bitlen q)" by (simp only: d1)
    also have "\<dots> = 2 powi (bitlen p - 1) / 2 powi bitlen q"
      by (rule power_int_diff) simp
    also have "\<dots> \<le> of_int p / 2 powi bitlen q"
      using p1 by (simp add: divide_right_mono)
    also have "\<dots> < of_int p / of_int q"
      using q2 p qpos by (simp add: divide_strict_left_mono)
    finally show ?thesis by (simp add: x)
  qed
  have hi: "x < 2 powi (d + 1)"
  proof -
    have "x < 2 powi bitlen p / of_int q"
      unfolding x using p2 qpos by (simp add: divide_strict_right_mono)
    also have "\<dots> \<le> 2 powi bitlen p / 2 powi (bitlen q - 1)"
      using q1 qpos by (intro divide_left_mono) (simp_all add: zero_less_mult_iff)
    also have "\<dots> = 2 powi (bitlen p - (bitlen q - 1))"
      by (rule power_int_diff [symmetric]) simp
    also have "\<dots> = 2 powi (d + 1)"
    proof -
      have d2: "bitlen p - (bitlen q - 1) = d + 1" by (simp add: d_def)
      show ?thesis by (simp only: d2)
    qed
    finally show ?thesis .
  qed
  have e: "expo x = (if 2 powi d \<le> x then d else d - 1)"
    by (simp add: expo_def pq d_def)
  show "2 powi expo x \<le> x" using lo by (simp add: e)
  show "x < 2 powi (expo x + 1)" using hi by (simp add: e not_le)
qed

lemma expo_mono:
  assumes "0 < x" "x \<le> y"
  shows "expo x \<le> expo y"
proof (rule ccontr)
  assume "\<not> expo x \<le> expo y"
  then have "expo y + 1 \<le> expo x" by simp
  then have "(2::rat) powi (expo y + 1) \<le> 2 powi expo x"
    by (intro power_int_increasing) simp_all
  moreover have "y < 2 powi (expo y + 1)" using assms by (intro expo_bounds) simp
  moreover have "2 powi expo x \<le> x" using assms by (intro expo_bounds)
  ultimately show False using assms(2) by linarith
qed

lemma powi2_less_imp_less: "(2::rat) powi m < 2 powi n \<Longrightarrow> m < n"
proof (rule ccontr)
  assume a: "(2::rat) powi m < 2 powi n" and "\<not> m < n"
  then have "n \<le> m" by simp
  then have "(2::rat) powi n \<le> 2 powi m" by (intro power_int_increasing) simp_all
  with a show False by simp
qed

lemma ulp_pos: "0 < ulp x"
  by (simp add: ulp_def)

lemma ulp_times: "ulp x * 2 powi k = 2 powi (max (expo x) (- 1022) - 52 + k)"
  by (simp add: ulp_def power_int_add)

lemma flp_nonneg: "0 \<le> x \<Longrightarrow> 0 \<le> flp x"
  using ulp_pos [of x] rne_nonneg [of "x / ulp x"] by (simp add: flp_def)

lemma flp_zero: "flp 0 = 0"
  by (simp add: flp_def rne_def)

text \<open>A rounded number stays inside the closed binade of the number.\<close>

lemma flp_upper:
  assumes "0 < x"
  shows "flp x \<le> 2 powi (max (expo x) (- 1022) + 1)"
proof -
  let ?E = "max (expo x) (- 1022)"
  have "x < 2 powi (expo x + 1)" using assms by (rule expo_bounds)
  also have "\<dots> \<le> 2 powi (?E + 1)" by (intro power_int_increasing) simp_all
  also have "\<dots> = ulp x * 2 powi 53"
  proof -
    have "?E - 52 + 53 = ?E + 1" by simp
    then show ?thesis by (simp only: ulp_times)
  qed
  finally have "x < 2 powi 53 * ulp x" by (simp only: mult.commute)
  then have "x / ulp x < 2 powi 53" using ulp_pos [of x] by (simp only: pos_divide_less_eq)
  then have "x / ulp x \<le> of_int (2 ^ 53)" by simp
  then have "rne (x / ulp x) \<le> rne (of_int (2 ^ 53))" by (rule rne_mono)
  then have "rne (x / ulp x) \<le> 2 ^ 53" by (simp only: rne_of_int)
  then have "(of_int (rne (x / ulp x)) :: rat) \<le> of_int (2 ^ 53)" by (simp only: of_int_le_iff)
  then have "ulp x * of_int (rne (x / ulp x)) \<le> ulp x * of_int (2 ^ 53)"
    using ulp_pos [of x] by (intro mult_left_mono) simp_all
  also have "ulp x * of_int (2 ^ 53) = ulp x * 2 powi 53" by simp
  also have "\<dots> = 2 powi (?E + 1)"
  proof -
    have "?E - 52 + 53 = ?E + 1" by simp
    then show ?thesis by (simp only: ulp_times)
  qed
  finally show ?thesis by (simp add: flp_def)
qed

lemma flp_lower:
  assumes "0 < x" "- 1022 \<le> expo x"
  shows "2 powi expo x \<le> flp x"
proof -
  have E: "max (expo x) (- 1022) = expo x" using assms(2) by simp
  have u52: "ulp x * 2 powi 52 = 2 powi expo x"
  proof -
    have "expo x - 52 + 52 = expo x" by simp
    then show ?thesis by (simp only: ulp_times E)
  qed
  have "2 powi expo x \<le> x" using assms(1) by (rule expo_bounds)
  then have "2 powi 52 * ulp x \<le> x" by (simp only: u52 [symmetric] mult.commute)
  then have "2 powi 52 \<le> x / ulp x" using ulp_pos [of x] by (simp only: pos_le_divide_eq)
  then have "of_int (2 ^ 52) \<le> x / ulp x" by simp
  then have "rne (of_int (2 ^ 52)) \<le> rne (x / ulp x)" by (rule rne_mono)
  then have "2 ^ 52 \<le> rne (x / ulp x)" by (simp only: rne_of_int)
  then have "(of_int (2 ^ 52) :: rat) \<le> of_int (rne (x / ulp x))" by (simp only: of_int_le_iff)
  then have "ulp x * of_int (2 ^ 52) \<le> ulp x * of_int (rne (x / ulp x))"
    using ulp_pos [of x] by (intro mult_left_mono) simp_all
  moreover have "ulp x * of_int (2 ^ 52) = 2 powi expo x"
    using u52 by simp
  ultimately show ?thesis by (simp add: flp_def)
qed

text \<open>Rounding is monotone: inside one binade by \<open>rne\<close>, across binades by the bounds.\<close>

lemma flp_mono:
  assumes "0 \<le> x" "x \<le> y"
  shows "flp x \<le> flp y"
proof (cases "x = 0")
  case True
  then show ?thesis using assms flp_nonneg [of y] by (simp add: flp_zero)
next
  case False
  then have x: "0 < x" and y: "0 < y" using assms by simp_all
  let ?Ex = "max (expo x) (- 1022)" and ?Ey = "max (expo y) (- 1022)"
  have le: "?Ex \<le> ?Ey" using expo_mono [OF x assms(2)] by simp
  show ?thesis
  proof (cases "?Ex = ?Ey")
    case True
    then have u: "ulp x = ulp y" by (simp add: ulp_def)
    have "x / ulp y \<le> y / ulp y" using assms(2) ulp_pos [of y] by (simp add: divide_right_mono)
    then have "rne (x / ulp y) \<le> rne (y / ulp y)" by (rule rne_mono)
    then have "(of_int (rne (x / ulp y)) :: rat) \<le> of_int (rne (y / ulp y))"
      by (simp only: of_int_le_iff)
    then show ?thesis using ulp_pos [of y] by (simp add: flp_def u)
  next
    case False
    then have lt: "?Ex + 1 \<le> ?Ey" using le by simp
    then have ey: "- 1022 \<le> expo y" "?Ey = expo y" by simp_all
    have "flp x \<le> 2 powi (?Ex + 1)" using x by (rule flp_upper)
    also have "\<dots> \<le> 2 powi ?Ey" using lt by (intro power_int_increasing) simp_all
    also have "\<dots> = 2 powi expo y" by (simp only: ey)
    also have "\<dots> \<le> flp y" using y ey(1) by (rule flp_lower)
    finally show ?thesis .
  qed
qed

lemma fl_mono:
  assumes "x \<le> y"
  shows "fl x \<le> fl y"
proof -
  consider "0 \<le> x" | "x < 0" "0 \<le> y" | "y < 0" using assms by linarith
  then show ?thesis
  proof cases
    case 1
    then show ?thesis using assms flp_mono [of x y] by (simp add: fl_def)
  next
    case 2
    then have "0 \<le> flp (- x)" "0 \<le> flp y" by (simp_all add: flp_nonneg)
    then show ?thesis using 2 by (simp add: fl_def)
  next
    case 3
    then have "flp (- y) \<le> flp (- x)" using assms by (intro flp_mono) simp_all
    then show ?thesis using 3 assms by (simp add: fl_def)
  qed
qed

lemma fl_nonneg: "0 \<le> x \<Longrightarrow> 0 \<le> fl x"
  by (simp add: fl_def flp_nonneg)

text \<open>Every integer below \<open>2\<^sup>5\<^sup>3\<close> in magnitude is a double.\<close>

lemma flp_of_int:
  assumes "0 < n" "n < 2 ^ 53"
  shows "flp (of_int n) = of_int n"
proof -
  let ?x = "of_int n :: rat"
  have x: "0 < ?x" using assms(1) by simp
  have lo: "2 powi expo ?x \<le> ?x" and hi: "?x < 2 powi (expo ?x + 1)"
    using x by (rule expo_bounds)+
  have "(2::rat) powi 0 \<le> ?x" using assms(1) by simp
  then have "(2::rat) powi 0 < 2 powi (expo ?x + 1)" using hi by linarith
  then have "0 < expo ?x + 1" by (rule powi2_less_imp_less)
  then have e0: "0 \<le> expo ?x" by simp
  have "?x < of_int (2 ^ 53)" using assms(2) by (simp only: of_int_less_iff)
  also have "(of_int (2 ^ 53) :: rat) = 2 powi 53" by simp
  finally have "?x < 2 powi 53" .
  with lo have "(2::rat) powi expo ?x < 2 powi 53" by (rule le_less_trans)
  then have "expo ?x < 53" by (rule powi2_less_imp_less)
  then have e1: "expo ?x \<le> 52" by simp
  define k where "k = nat (52 - expo ?x)"
  have "max (expo ?x) (- 1022) - 52 = - int k" using e0 e1 by (simp add: k_def)
  then have "ulp ?x = 2 powi (- int k)" by (simp only: ulp_def)
  also have "\<dots> = inverse (2 ^ k)" by (simp add: power_int_minus)
  finally have u: "ulp ?x = inverse (2 ^ k)" .
  have "?x / ulp ?x = ?x * 2 ^ k" by (simp add: u divide_inverse)
  also have "\<dots> = of_int (n * 2 ^ k)" by simp
  finally have "rne (?x / ulp ?x) = n * 2 ^ k" by (simp only: rne_of_int)
  then have "flp ?x = inverse (2 ^ k) * of_int (n * 2 ^ k)" by (simp add: flp_def u)
  also have "\<dots> = ?x" by simp
  finally show ?thesis .
qed

lemma fl_of_int:
  assumes "\<bar>n\<bar> < 2 ^ 53"
  shows "fl (of_int n) = of_int n"
proof -
  consider "n = 0" | "0 < n" | "n < 0" by linarith
  then show ?thesis
  proof cases
    case 1
    then show ?thesis by (simp add: fl_def flp_zero)
  next
    case 2
    then show ?thesis using assms flp_of_int [of n] by (simp add: fl_def)
  next
    case 3
    then have "flp (of_int (- n)) = of_int (- n)" using assms by (intro flp_of_int) simp_all
    then show ?thesis using 3 by (simp add: fl_def)
  qed
qed

lemma fl_0: "fl 0 = 0"
  using fl_of_int [of 0] by simp

lemma fl_180: "fl 180 = 180"
  using fl_of_int [of 180] by simp

lemma fl_360: "fl 360 = 360"
  using fl_of_int [of 360] by simp

lemma fl_angle: "0 \<le> x \<Longrightarrow> x \<le> 360 \<Longrightarrow> 0 \<le> fl x \<and> fl x \<le> 360"
  using fl_mono [of 0 x] fl_mono [of x 360] by (simp add: fl_0 fl_360)

section \<open>Arithmetic of the operators\<close>

lemma Math_round_eq_round: "Math_round x = round x"
  by (simp add: Math_round_def round_def)

lemma Math_round_nonneg: "0 \<le> x \<Longrightarrow> 0 \<le> Math_round x"
  by (simp add: Math_round_def)

lemma Math_round_le: "x \<le> of_int n \<Longrightarrow> Math_round x \<le> n"
  by (simp add: Math_round_def floor_le_iff)

lemma js_rem_nonneg_eq: "0 \<le> x \<Longrightarrow> 0 < m \<Longrightarrow> js_rem x m = rmod x m"
  by (simp add: js_rem_def rmod_def js_trunc_def not_less [symmetric] divide_less_0_iff)

lemma rmod_range:
  assumes "0 < m"
  shows "0 \<le> rmod x m" and "rmod x m < m"
proof -
  have "of_int \<lfloor>x / m\<rfloor> * m \<le> x" using assms by (rule floor_divide_lower)
  then show "0 \<le> rmod x m" by (simp add: rmod_def mult.commute)
  have "x < (of_int \<lfloor>x / m\<rfloor> + 1) * m" using assms by (rule floor_divide_upper)
  then show "rmod x m < m" by (simp add: rmod_def algebra_simps)
qed

lemma rmod_id:
  assumes "0 \<le> x" "x < m"
  shows "rmod x m = x"
proof -
  have "0 \<le> x / m" "x / m < 1" using assms by simp_all
  then have "\<lfloor>x / m\<rfloor> = 0" by (simp add: floor_eq_iff)
  then show ?thesis by (simp add: rmod_def)
qed

lemma js_rem_of_int:
  assumes "0 \<le> r" "0 < m"
  shows "js_rem (of_int r) (of_int m) = of_int (r mod m)"
proof -
  have "(0::rat) \<le> of_int r / of_int m" using assms by simp
  then have "js_trunc (of_int r / of_int m) = r div m"
    by (simp add: js_trunc_def floor_divide_of_int_eq)
  then have "js_rem (of_int r) (of_int m) = of_int r - of_int m * of_int (r div m)"
    by (simp add: js_rem_def)
  also have "\<dots> = of_int (r - m * (r div m))" by simp
  also have "r - m * (r div m) = r mod m" by (simp add: minus_mult_div_eq_mod)
  finally show ?thesis .
qed

lemma js_index_of_int:
  "0 \<le> k \<Longrightarrow> nat k < length xs \<Longrightarrow> js_index xs (of_int k) = Some (xs ! nat k)"
  by (simp add: js_index_def)

lemma getCardinalDirection_nonneg:
  assumes "0 \<le> az"
  shows "getCardinalDirection az = Some (directions ! nat (Math_round (az / (45 / 2)) mod 16))"
proof -
  let ?r = "Math_round (az / (45 / 2))"
  have r: "0 \<le> ?r" using assms by (intro Math_round_nonneg) simp
  have "js_rem (of_int ?r) 16 = of_int (?r mod 16)"
    using js_rem_of_int [OF r, of 16] by simp
  moreover have "0 \<le> ?r mod 16" "nat (?r mod 16) < length directions"
    by (simp_all add: directions_def nat_less_iff)
  ultimately show ?thesis
    by (simp add: getCardinalDirection_def js_index_of_int)
qed

section \<open>The smoothing buffer\<close>

lemma hasWraparound_iff:
  "hasWraparound buf \<longleftrightarrow> (\<exists>v \<in> set buf. v < 90) \<and> (\<exists>v \<in> set buf. v > 270)"
  by (simp add: hasWraparound_def list_ex_iff)

lemma sum_list_lower: "\<forall>v \<in> set xs. (l::int) \<le> v \<Longrightarrow> l * int (length xs) \<le> sum_list xs"
  by (induction xs) (auto simp: algebra_simps)

lemma sum_list_upper: "\<forall>v \<in> set xs. v \<le> (u::int) \<Longrightarrow> sum_list xs \<le> u * int (length xs)"
  by (induction xs) (auto simp: algebra_simps)

lemma mean_lower:
  assumes "xs \<noteq> []" "\<forall>v \<in> set xs. l \<le> v"
  shows "of_int l \<le> mean xs"
proof -
  have "(of_int (l * int (length xs)) :: rat) \<le> of_int (sum_list xs)"
    using sum_list_lower [OF assms(2)] by (simp only: of_int_le_iff)
  then have "(of_int l :: rat) * of_nat (length xs) \<le> of_int (sum_list xs)" by simp
  moreover have "(0::rat) < of_nat (length xs)" using assms(1) by simp
  ultimately show ?thesis by (simp add: mean_def pos_le_divide_eq)
qed

lemma mean_upper:
  assumes "xs \<noteq> []" "\<forall>v \<in> set xs. v \<le> u"
  shows "mean xs \<le> of_int u"
proof -
  have "(of_int (sum_list xs) :: rat) \<le> of_int (u * int (length xs))"
    using sum_list_upper [OF assms(2)] by (simp only: of_int_le_iff)
  then have "(of_int (sum_list xs) :: rat) \<le> of_int u * of_nat (length xs)" by simp
  moreover have "(0::rat) < of_nat (length xs)" using assms(1) by simp
  ultimately show ?thesis by (simp add: mean_def pos_divide_le_eq)
qed

lemma average_eq:
  "average buf = (if hasWraparound buf then js_rem (mean (normalized buf)) 360 else mean buf)"
  by (simp add: average_def mean_def)

lemma normalized_nonneg: "\<forall>v \<in> set buf. 0 \<le> v \<Longrightarrow> \<forall>v \<in> set (normalized buf). 0 \<le> v"
  by (auto simp: normalized_def)

lemma normalized_Nil_iff: "normalized buf = [] \<longleftrightarrow> buf = []"
  by (simp add: normalized_def)

lemma average_spec:
  assumes "buf \<noteq> []" "\<forall>v \<in> set buf. 0 \<le> v"
  shows "average buf = (if hasWraparound buf then rmod (mean (normalized buf)) 360 else mean buf)"
proof -
  have "0 \<le> mean (normalized buf)"
    using mean_lower [of "normalized buf" 0] assms normalized_nonneg [OF assms(2)]
    by (simp add: normalized_Nil_iff)
  then show ?thesis by (simp add: average_eq js_rem_nonneg_eq)
qed

lemma average_range:
  assumes "buf \<noteq> []" "\<forall>v \<in> set buf. 0 \<le> v \<and> v \<le> 360"
  shows "0 \<le> average buf" and "average buf \<le> 360"
proof -
  have nn: "\<forall>v \<in> set buf. 0 \<le> v" using assms(2) by blast
  have up: "\<forall>v \<in> set buf. v \<le> 360" using assms(2) by blast
  have m0: "0 \<le> mean buf" using mean_lower [OF assms(1), of 0] nn by simp
  have m1: "mean buf \<le> 360" using mean_upper [OF assms(1), of 360] up by simp
  have r0: "0 \<le> rmod (mean (normalized buf)) 360" by (rule rmod_range) simp
  have r1: "rmod (mean (normalized buf)) 360 < 360" by (rule rmod_range) simp
  show "0 \<le> average buf" using m0 r0 by (simp add: average_spec [OF assms(1) nn])
  show "average buf \<le> 360" using m1 r1 by (simp add: average_spec [OF assms(1) nn])
qed

lemma pushShift_not_Nil: "pushShift buf x \<noteq> []"
  by (cases buf) (auto simp: pushShift_def bufferSize_def Let_def)

lemma set_pushShift: "set (pushShift buf x) \<subseteq> insert x (set buf)"
proof -
  have "set (tl (buf @ [x])) \<subseteq> set (buf @ [x])" by (rule list.set_sel(2) [THEN subsetI]) simp
  then show ?thesis by (auto simp: pushShift_def Let_def)
qed

lemma length_pushShift: "length buf \<le> 5 \<Longrightarrow> length (pushShift buf x) \<le> 5"
  by (simp add: pushShift_def bufferSize_def Let_def)

lemma pushShift_drop:
  assumes "length buf \<le> 5"
  shows "pushShift buf x = drop (length buf + 1 - 5) (buf @ [x])"
proof (cases "length buf = 5")
  case True
  then have "buf \<noteq> []" by auto
  with True show ?thesis
    by (simp add: pushShift_def bufferSize_def Let_def tl_append2 drop_Suc drop_0)
next
  case False
  with assms have "length buf < 5" by simp
  then show ?thesis by (simp add: pushShift_def bufferSize_def Let_def)
qed

section \<open>The closing calls\<close>

lemma updateDisplay_mapManager: "mapManager (updateDisplay w this) = mapManager w"
  by (simp add: updateDisplay_def Let_def split: option.splits)

lemma updateMapMarker_updateDisplay:
  "updateMapMarker (updateDisplay w this') this = updateMapMarker w this"
  by (simp add: updateMapMarker_def updateDisplay_mapManager)

lemma closingCalls_fields:
  "manager (closingCalls this w) = this"
  "page (closingCalls this w) = updateDisplay w this"
  "completion (closingCalls this w) = updateMapMarker w this"
  by (simp_all add: closingCalls_def Let_def updateMapMarker_updateDisplay)

lemma updateMapMarker_cases:
  "updateMapMarker w this =
     (if mapManager w = None \<or> smoothedAzimuth this = None then Normal else Throw TypeError)"
  by (cases "mapManager w"; cases "smoothedAzimuth this")
     (simp_all add: updateMapMarker_def split: MapManager.splits)

section \<open>The handlers, field by field\<close>

lemma markReceived_eq: "markReceived this = this\<lparr>hasReceivedData := True\<rparr>"
  by (simp add: markReceived_def)

lemma markReceived_fields:
  "azimuth (markReceived this) = azimuth this"
  "pitch (markReceived this) = pitch this"
  "smoothedAzimuth (markReceived this) = smoothedAzimuth this"
  "azimuthBuffer (markReceived this) = azimuthBuffer this"
  by (simp_all add: markReceived_def)

lemma markReceived_pitch_update:
  "markReceived (this\<lparr>pitch := p\<rparr>) = (markReceived this)\<lparr>pitch := p\<rparr>"
  by (simp add: markReceived_def)

lemma pitch_setPitch_Some: "pitch (setPitch this (Some b)) = Some (pitchOf b)"
  by (simp add: setPitch_def Let_def Math_round_eq_round pitchOf_def max_def min_def)

lemma setPitch_None: "setPitch this None = this"
  by (simp add: setPitch_def)

lemma setPitch_forgets_pitch: "setPitch (this\<lparr>pitch := p\<rparr>) (Some b) = setPitch this (Some b)"
  by (simp add: setPitch_def Let_def)

lemma setPitch_frame:
  "azimuth (setPitch this rawBeta) = azimuth this"
  "smoothedAzimuth (setPitch this rawBeta) = smoothedAzimuth this"
  "azimuthBuffer (setPitch this rawBeta) = azimuthBuffer this"
  "hasReceivedData (setPitch this rawBeta) = hasReceivedData this"
  "isTracking (setPitch this rawBeta) = isTracking this"
  by (simp_all add: setPitch_def Let_def split: option.splits)

lemma pitchRange_setPitch:
  "pitchRange (pitch this) \<Longrightarrow> pitchRange (pitch (setPitch this rawBeta))"
  by (simp add: setPitch_def pitchRange_def Let_def split: option.splits)

lemma storeAzimuth_fields:
  "azimuth (storeAzimuth this az) = Some (Math_round az)"
  "smoothedAzimuth (storeAzimuth this az) =
     Some (Math_round (average (pushShift (azimuthBuffer this) (Math_round az))))"
  "azimuthBuffer (storeAzimuth this az) = pushShift (azimuthBuffer this) (Math_round az)"
  "pitch (storeAzimuth this az) = pitch this"
  "hasReceivedData (storeAzimuth this az) = hasReceivedData this"
  "isTracking (storeAzimuth this az) = isTracking this"
  by (simp_all add: storeAzimuth_def smoothAzimuth_def Let_def)

text \<open>The fields each handler leaves, with the closing calls taken off.\<close>

lemma manager_handleOrientationAbsolute:
  "manager (handleOrientationAbsolute this w event) =
     (case (alpha event, beta event) of
        (Some a, Some b) \<Rightarrow>
          storeAzimuth (setPitch (markReceived this) (Some b))
            (if js_gt (Some (pitchOf b)) 45 then js_rem (fl (a + 180)) 360 else a)
      | _ \<Rightarrow> setPitch (markReceived this) (beta event))"
  by (simp add: handleOrientationAbsolute_def Let_def closingCalls_fields pitch_setPitch_Some
      split: option.splits)

lemma manager_handleOrientation:
  "manager (handleOrientation this w event) =
     (let this2 = setPitch (markReceived this) (beta event)
      in case webkitCompassHeading event of
           Number h \<Rightarrow>
             storeAzimuth this2 (if js_gt (pitch this2) 45 then js_rem (fl (h + 180)) 360 else h)
         | Null \<Rightarrow>
             storeAzimuth this2 (if js_gt (pitch this2) 45 then js_rem (fl (0 + 180)) 360 else 0)
         | Undefined \<Rightarrow>
             (case alpha event of
                Some a \<Rightarrow>
                  storeAzimuth this2
                    (if js_gt (pitch this2) 45 then js_rem (fl (fallbackCandidate a + 180)) 360
                     else fallbackCandidate a)
              | None \<Rightarrow> this2))"
  by (simp add: handleOrientation_def Let_def closingCalls_fields
      split: option.splits heading.splits)

lemma completion_handleOrientationAbsolute:
  "completion (handleOrientationAbsolute this w event) =
   updateMapMarker w (manager (handleOrientationAbsolute this w event))"
  by (simp add: handleOrientationAbsolute_def Let_def closingCalls_fields)

lemma completion_handleOrientation:
  "completion (handleOrientation this w event) =
   updateMapMarker w (manager (handleOrientation this w event))"
  by (simp add: handleOrientation_def Let_def closingCalls_fields)

lemma pitch_handleOrientationAbsolute:
  "pitch (manager (handleOrientationAbsolute this w event)) = pitch (setPitch this (beta event))"
  by (simp add: manager_handleOrientationAbsolute storeAzimuth_fields markReceived_eq
      setPitch_def Let_def split: option.splits)

lemma pitch_handleOrientation:
  "pitch (manager (handleOrientation this w event)) = pitch (setPitch this (beta event))"
  by (simp add: manager_handleOrientation storeAzimuth_fields markReceived_eq
      setPitch_def Let_def split: option.splits heading.splits)

lemma handleOrientationAbsolute_forgets_pitch:
  "manager (handleOrientationAbsolute (this\<lparr>pitch := p\<rparr>) w (event\<lparr>beta := Some b\<rparr>)) =
   manager (handleOrientationAbsolute this w (event\<lparr>beta := Some b\<rparr>))"
  by (simp add: manager_handleOrientationAbsolute markReceived_pitch_update
      setPitch_forgets_pitch split: option.splits)

lemma handleOrientation_forgets_pitch:
  "manager (handleOrientation (this\<lparr>pitch := p\<rparr>) w (event\<lparr>beta := Some b\<rparr>)) =
   manager (handleOrientation this w (event\<lparr>beta := Some b\<rparr>))"
  by (simp add: manager_handleOrientation Let_def markReceived_pitch_update
      setPitch_forgets_pitch split: option.splits heading.splits)

section \<open>Invariants of ingestion\<close>

lemma rangeInvariant_constructor: "rangeInvariant constructor"
  by (simp add: rangeInvariant_def constructor_def closedRange_def pitchRange_def)

lemma rangeInvariant_markReceived: "rangeInvariant this \<Longrightarrow> rangeInvariant (markReceived this)"
  by (simp add: rangeInvariant_def markReceived_def)

lemma rangeInvariant_received:
  "rangeInvariant this \<Longrightarrow> rangeInvariant (this\<lparr>hasReceivedData := True\<rparr>)"
  by (simp add: rangeInvariant_def)

lemma rangeInvariant_setPitch: "rangeInvariant this \<Longrightarrow> rangeInvariant (setPitch this rawBeta)"
  by (simp add: rangeInvariant_def setPitch_frame pitchRange_setPitch)

lemma rangeInvariant_storeAzimuth:
  assumes "rangeInvariant this" "angle az"
  shows "rangeInvariant (storeAzimuth this az)"
proof -
  let ?r = "Math_round az"
  let ?buf = "pushShift (azimuthBuffer this) ?r"
  have r: "0 \<le> ?r" "?r \<le> 360"
    using assms(2) Math_round_nonneg [of az] Math_round_le [of az 360] by (simp_all add: angle_def)
  have buf: "\<forall>v \<in> set ?buf. 0 \<le> v \<and> v \<le> 360"
    using set_pushShift [of "azimuthBuffer this" ?r] assms(1) r by (auto simp: rangeInvariant_def)
  have ne: "?buf \<noteq> []" by (rule pushShift_not_Nil)
  have "0 \<le> average ?buf" "average ?buf \<le> 360" using average_range [OF ne buf] by simp_all
  then have s: "0 \<le> Math_round (average ?buf)" "Math_round (average ?buf) \<le> 360"
    using Math_round_nonneg [of "average ?buf"] Math_round_le [of "average ?buf" 360] by simp_all
  have len: "length ?buf \<le> 5" using assms(1) by (simp add: rangeInvariant_def length_pushShift)
  show ?thesis
    using r s len buf assms(1) by (simp add: rangeInvariant_def storeAzimuth_fields closedRange_def)
qed

lemma js_rem_fl_plus_180:
  assumes "0 \<le> c"
  shows "js_rem (fl (c + 180)) 360 = rmod (fl (c + 180)) 360"
proof -
  have "0 \<le> fl (c + 180)" using assms by (intro fl_nonneg) simp
  then show ?thesis by (simp add: js_rem_nonneg_eq)
qed

lemma angle_tilt:
  assumes "angle c"
  shows "angle (if js_gt p 45 then js_rem (fl (c + 180)) 360 else c)"
proof -
  have "js_rem (fl (c + 180)) 360 = rmod (fl (c + 180)) 360"
    using assms by (intro js_rem_fl_plus_180) (simp add: angle_def)
  moreover have "0 \<le> rmod (fl (c + 180)) 360" "rmod (fl (c + 180)) 360 < 360"
    by (rule rmod_range, simp)+
  ultimately show ?thesis using assms by (simp add: angle_def)
qed

lemma angle_fallbackCandidate: "angle a \<Longrightarrow> angle (fallbackCandidate a)"
  using fl_angle [of "360 - a"] by (simp add: angle_def fallbackCandidate_def)

lemma angle_0: "angle 0"
  by (simp add: angle_def)

lemma rangeInvariant_handleOrientationAbsolute:
  assumes "rangeInvariant this" "validEvent event"
  shows "rangeInvariant (manager (handleOrientationAbsolute this w event))"
proof -
  have i: "rangeInvariant (setPitch (markReceived this) rawBeta)" for rawBeta
    using assms(1) by (intro rangeInvariant_setPitch rangeInvariant_markReceived)
  show ?thesis
  proof (cases "alpha event")
    case None
    then show ?thesis using i by (simp add: manager_handleOrientationAbsolute)
  next
    case (Some a)
    then have "angle a" using assms(2) by (simp add: validEvent_def)
    then show ?thesis using i Some
      by (cases "beta event")
         (simp_all add: manager_handleOrientationAbsolute rangeInvariant_storeAzimuth angle_tilt)
  qed
qed

lemma rangeInvariant_handleOrientation:
  assumes "rangeInvariant this" "validEvent event"
  shows "rangeInvariant (manager (handleOrientation this w event))"
proof -
  have i: "rangeInvariant (setPitch (markReceived this) (beta event))"
    using assms(1) by (intro rangeInvariant_setPitch rangeInvariant_markReceived)
  show ?thesis
  proof (cases "webkitCompassHeading event")
    case (Number h)
    then have "angle h" using assms(2) by (simp add: validEvent_def)
    then show ?thesis using i Number
      by (simp add: manager_handleOrientation Let_def rangeInvariant_storeAzimuth angle_tilt)
  next
    case Null
    then show ?thesis using i angle_tilt [OF angle_0]
      by (simp add: manager_handleOrientation Let_def rangeInvariant_storeAzimuth)
  next
    case Undefined
    show ?thesis
    proof (cases "alpha event")
      case None
      with Undefined i show ?thesis
        by (simp add: manager_handleOrientation Let_def)
    next
      case (Some a)
      then have "angle (fallbackCandidate a)"
        using assms(2) by (simp add: validEvent_def angle_fallbackCandidate)
      with Undefined Some i show ?thesis
        by (simp add: manager_handleOrientation Let_def rangeInvariant_storeAzimuth angle_tilt)
    qed
  qed
qed

lemma rangeInvariant_listener:
  "rangeInvariant (fst world) \<Longrightarrow> validSample s \<Longrightarrow> rangeInvariant (fst (listener world s))"
  by (cases world; cases s)
     (simp_all add: Let_def rangeInvariant_handleOrientationAbsolute
        rangeInvariant_handleOrientation rangeInvariant_received)

lemma rangeInvariant_ingestAll:
  "rangeInvariant (fst world) \<Longrightarrow> \<forall>s \<in> set samples. validSample s \<Longrightarrow>
   rangeInvariant (fst (ingestAll world samples))"
  unfolding ingestAll_def
  by (induction samples arbitrary: world) (simp_all add: rangeInvariant_listener)

lemma pitchRange_listener:
  assumes "pitchRange (pitch (fst world))"
  shows "pitchRange (pitch (fst (listener world s)))"
proof -
  obtain this w where w: "world = (this, w)" by (cases world)
  have "pitchRange (pitch (setPitch (this\<lparr>hasReceivedData := True\<rparr>) rawBeta))" for rawBeta
    using assms w by (intro pitchRange_setPitch) simp
  then show ?thesis
    using w
    by (cases s) (simp_all add: Let_def pitch_handleOrientationAbsolute pitch_handleOrientation)
qed

lemma pitchRange_ingestAll:
  "pitchRange (pitch (fst world)) \<Longrightarrow> pitchRange (pitch (fst (ingestAll world samples)))"
  unfolding ingestAll_def
  by (induction samples arbitrary: world) (simp_all add: pitchRange_listener)

section \<open>Smoothing, tilt and the window of the buffer\<close>

lemma smoothAzimuth_fields:
  "azimuthBuffer (fst (smoothAzimuth this x)) = pushShift (azimuthBuffer this) x"
  "snd (smoothAzimuth this x) = Math_round (average (pushShift (azimuthBuffer this) x))"
  by (simp_all add: smoothAzimuth_def Let_def)

lemma average_specSmooth:
  assumes "buf \<noteq> []" "\<forall>v \<in> set buf. 0 \<le> v"
  shows "Math_round (average buf) = specSmooth buf"
  using average_spec [OF assms]
  by (simp add: specSmooth_def hasWraparound_iff normalized_def Math_round_eq_round)

lemma feed_snoc: "feed this (xs @ [x]) = fst (smoothAzimuth (feed this xs) x)"
  by (simp add: feed_def)

lemma drop_window_snoc:
  "drop (length (drop (length ys - 5) ys) + 1 - 5) (drop (length ys - 5) ys @ [x]) =
   drop (length (ys @ [x]) - 5) (ys @ [x])"
proof (cases "length ys < 5")
  case True
  then show ?thesis by simp
next
  case False
  then have l: "length (drop (length ys - 5) ys) = 5" by simp
  have "drop (length ys - 5) ys @ [x] = drop (length ys - 5) (ys @ [x])" by simp
  then have "drop 1 (drop (length ys - 5) ys @ [x]) = drop (1 + (length ys - 5)) (ys @ [x])"
    by (simp only: drop_drop)
  moreover have "1 + (length ys - 5) = length (ys @ [x]) - 5" using False by simp
  ultimately show ?thesis by (simp only: l) simp
qed

lemma azimuthBuffer_feed:
  assumes "length (azimuthBuffer this) \<le> 5"
  shows "azimuthBuffer (feed this xs) =
         drop (length (azimuthBuffer this @ xs) - 5) (azimuthBuffer this @ xs)"
proof (induction xs rule: rev_induct)
  case Nil
  then show ?case using assms by (simp add: feed_def)
next
  case (snoc x xs)
  let ?all = "azimuthBuffer this @ xs"
  have len: "length (drop (length ?all - 5) ?all) \<le> 5" by simp
  have "azimuthBuffer (feed this (xs @ [x])) = pushShift (drop (length ?all - 5) ?all) x"
    using snoc.IH by (simp add: feed_snoc smoothAzimuth_fields)
  also have "\<dots> = drop (length (drop (length ?all - 5) ?all) + 1 - 5) (drop (length ?all - 5) ?all @ [x])"
    using len by (rule pushShift_drop)
  also have "\<dots> = drop (length (?all @ [x]) - 5) (?all @ [x])"
    by (rule drop_window_snoc)
  finally show ?case by simp
qed

lemma length_storeAzimuth:
  "length (azimuthBuffer this) \<le> 5 \<Longrightarrow> length (azimuthBuffer (storeAzimuth this az)) \<le> 5"
  by (simp add: storeAzimuth_fields length_pushShift)

lemma length_listener:
  assumes "length (azimuthBuffer (fst world)) \<le> 5"
  shows "length (azimuthBuffer (fst (listener world s))) \<le> 5"
proof -
  obtain this w where w: "world = (this, w)" by (cases world)
  show ?thesis
  proof (cases s)
    case (DeviceOrientationAbsolute event)
    then show ?thesis using assms w
      by (simp add: Let_def manager_handleOrientationAbsolute markReceived_eq setPitch_frame
          length_storeAzimuth split: option.splits)
  next
    case (DeviceOrientation event)
    then show ?thesis using assms w
      by (simp add: Let_def manager_handleOrientation markReceived_eq setPitch_frame
          length_storeAzimuth split: option.splits heading.splits)
  qed
qed

lemma length_ingestAll:
  "length (azimuthBuffer (fst world)) \<le> 5 \<Longrightarrow>
   length (azimuthBuffer (fst (ingestAll world samples))) \<le> 5"
  unfolding ingestAll_def
  by (induction samples arbitrary: world) (simp_all add: length_listener)

text \<open>The manager a stream leaves does not depend on the window.\<close>

lemma fst_listener_window: "fst (listener (this, w) s) = fst (listener (this, w') s)"
  by (cases s)
     (simp_all add: Let_def manager_handleOrientationAbsolute manager_handleOrientation)

lemma fst_ingestAll_window:
  "fst (ingestAll (this, w) samples) = fst (ingestAll (this, w') samples)"
proof (induction samples arbitrary: this w w')
  case Nil
  then show ?case by (simp add: ingestAll_def)
next
  case (Cons s samples)
  obtain t1 w1 where l1: "listener (this, w) s = (t1, w1)" by (cases "listener (this, w) s")
  obtain t2 w2 where l2: "listener (this, w') s = (t2, w2)" by (cases "listener (this, w') s")
  have "t1 = t2" using fst_listener_window [of this w s w'] l1 l2 by simp
  then show ?case using Cons.IH [of t1 w1 w2] l1 l2 by (simp add: ingestAll_def)
qed

text \<open>The three copies of the tilt statement against the rule of the statements.\<close>

lemma tilt_compensated:
  assumes "0 \<le> c"
  shows "(if js_gt p 45 then js_rem (fl (c + 180)) 360 else c) = compensated p c"
  using js_rem_fl_plus_180 [OF assms]
  by (simp add: compensated_def js_gt_def split: option.splits)

lemma rmod_of_int: "0 < m \<Longrightarrow> rmod (of_int n) (of_int m) = of_int (n mod m)"
proof -
  have "rmod (of_int n) (of_int m) = of_int (n - m * (n div m))"
    by (simp add: rmod_def floor_divide_of_int_eq)
  also have "n - m * (n div m) = n mod m" by (simp add: minus_mult_div_eq_mod)
  finally show ?thesis .
qed

lemma specTilt_of_int: "\<exists>k. specTilt p (of_int n) = of_int k"
proof -
  have "rmod (of_int n + 180) 360 = of_int ((n + 180) mod 360)"
    using rmod_of_int [of 360 "n + 180"] by simp
  then show ?thesis by (auto simp: specTilt_def split: option.splits)
qed

lemma round_specTilt_of_int: "of_int (round (specTilt p (of_int n))) = specTilt p (of_int n)"
proof -
  obtain k where "specTilt p (of_int n) = of_int k" using specTilt_of_int by blast
  then show ?thesis by simp
qed

lemma rmod_self: "m \<noteq> 0 \<Longrightarrow> rmod m m = 0"
  by (simp add: rmod_def)

lemma compensated_of_int:
  assumes "0 \<le> n" "n \<le> 360"
  shows "compensated p (of_int n) = specTilt p (of_int n)"
proof -
  have "fl (of_int (n + 180)) = of_int (n + 180)" using assms by (intro fl_of_int) simp
  then have "fl (of_int n + 180) = of_int n + 180" by simp
  then show ?thesis by (simp add: compensated_def specTilt_def split: option.splits)
qed

lemma pitchOf_exact: "fl (b - 90) = b - 90 \<Longrightarrow> pitchOf b = specPitch b"
  by (simp add: pitchOf_def specPitch_def)

lemma pitchOf_of_int:
  assumes "- 180 \<le> k" "k \<le> 180"
  shows "pitchOf (of_int k) = specPitch (of_int k)"
proof -
  have "fl (of_int (k - 90)) = of_int (k - 90)" using assms by (intro fl_of_int) simp
  then have "fl (of_int k - 90) = of_int k - 90" by simp
  then show ?thesis by (rule pitchOf_exact)
qed

lemma pitchOf_range: "- 90 \<le> pitchOf b \<and> pitchOf b \<le> 90"
  by (simp add: pitchOf_def)

lemma azimuth_handleOrientationAbsolute:
  "azimuth (manager (handleOrientationAbsolute this w (event\<lparr>alpha := Some a, beta := Some b\<rparr>))) =
   Some (Math_round (if js_gt (Some (pitchOf b)) 45 then js_rem (fl (a + 180)) 360 else a))"
  by (simp add: manager_handleOrientationAbsolute storeAzimuth_fields)

lemma azimuth_handleOrientation_heading:
  "azimuth (manager (handleOrientation this w (event\<lparr>webkitCompassHeading := Number h\<rparr>))) =
   Some (Math_round
     (if js_gt (pitch (manager (handleOrientation this w
                  (event\<lparr>webkitCompassHeading := Number h\<rparr>)))) 45
      then js_rem (fl (h + 180)) 360 else h))"
  by (simp add: manager_handleOrientation Let_def storeAzimuth_fields)

lemma azimuth_handleOrientation_null:
  "azimuth (manager (handleOrientation this w (event\<lparr>webkitCompassHeading := Null\<rparr>))) =
   Some (Math_round
     (if js_gt (pitch (manager (handleOrientation this w
                  (event\<lparr>webkitCompassHeading := Null\<rparr>)))) 45
      then js_rem (fl (0 + 180)) 360 else 0))"
  by (simp add: manager_handleOrientation Let_def storeAzimuth_fields)

lemma azimuth_handleOrientation_alpha:
  "azimuth (manager (handleOrientation this w
      (event\<lparr>webkitCompassHeading := Undefined, alpha := Some a\<rparr>))) =
   Some (Math_round
     (if js_gt (pitch (manager (handleOrientation this w
                  (event\<lparr>webkitCompassHeading := Undefined, alpha := Some a\<rparr>)))) 45
      then js_rem (fl (fallbackCandidate a + 180)) 360 else fallbackCandidate a))"
  by (simp add: manager_handleOrientation Let_def storeAzimuth_fields)

lemma fallbackCandidate_nonneg: "a \<le> 360 \<Longrightarrow> 0 \<le> fallbackCandidate a"
  unfolding fallbackCandidate_def by (rule fl_nonneg) simp

section \<open>Cardinal direction: the 16-point rose\<close>

text \<open>
  C2, as the specification has it, fails at 22 degrees: 22 / 22.5 rounds to 1, so the
  label is NNE, not N.
\<close>

theorem getCardinalDirection_22_counterexample:
  "getCardinalDirection 22 = Some ''NNE'' \<and> getCardinalDirection 22 \<noteq> Some ''N''"
  by code_simp

text \<open>
  C2 (amended). For every azimuth that is not negative, \<open>getCardinalDirection\<close> returns
  the entry of the 16-point rose (N, NNE, NE, ENE, E, ESE, SE, SSE, S, SSW, SW, WSW, W,
  WNW, NW, NNW) at index \<open>round (azimuth / 22.5) mod 16\<close>. Each label is centred on its
  direction: 0 and 11 map to N, 12, 22 and 23 map to NNE, 359 maps to N, and 360, which
  rounds to index 16, wraps to N.
\<close>

theorem getCardinalDirection_rose:
  assumes "0 \<le> az"
  shows "getCardinalDirection az = Some (directions ! nat (round (az / (45 / 2)) mod 16))
    \<and> directions =
        [''N'', ''NNE'', ''NE'', ''ENE'', ''E'', ''ESE'', ''SE'', ''SSE'',
         ''S'', ''SSW'', ''SW'', ''WSW'', ''W'', ''WNW'', ''NW'', ''NNW'']
    \<and> getCardinalDirection 0 = Some ''N''
    \<and> getCardinalDirection 11 = Some ''N''
    \<and> getCardinalDirection 12 = Some ''NNE''
    \<and> getCardinalDirection 22 = Some ''NNE''
    \<and> getCardinalDirection 23 = Some ''NNE''
    \<and> getCardinalDirection 359 = Some ''N''
    \<and> getCardinalDirection 360 = Some ''N''"
proof -
  have "getCardinalDirection az = Some (directions ! nat (round (az / (45 / 2)) mod 16))"
    using getCardinalDirection_nonneg [OF assms] by (simp add: Math_round_eq_round)
  moreover have "getCardinalDirection 0 = Some ''N''" by code_simp
  moreover have "getCardinalDirection 11 = Some ''N''" by code_simp
  moreover have "getCardinalDirection 12 = Some ''NNE''" by code_simp
  moreover have "getCardinalDirection 22 = Some ''NNE''" by code_simp
  moreover have "getCardinalDirection 23 = Some ''NNE''" by code_simp
  moreover have "getCardinalDirection 359 = Some ''N''" by code_simp
  moreover have "getCardinalDirection 360 = Some ''N''" by code_simp
  ultimately show ?thesis by (simp add: directions_def)
qed

theorem getCardinalDirection_rose_witness:
  "(0::rat) \<le> 348 \<and>
   getCardinalDirection 348 = Some (directions ! nat (round (348 / (45 / 2) :: rat) mod 16))"
  using getCardinalDirection_rose [of 348] by simp

section \<open>Range of the stored azimuths\<close>

text \<open>
  C1, as the specification has it, fails: the azimuth is rounded after it has been
  reduced, so a heading of 359.5 degrees on the absolute path is stored as 360, and the
  smoothed azimuth of that single reading is 360 as well.
\<close>

theorem azimuth_360_counterexample:
  "azimuth (fst (ingestAll (constructor, loadedWindow)
      [DeviceOrientationAbsolute
         \<lparr>alpha = Some (719 / 2), beta = Some 90, gamma = Some 0,
          webkitCompassHeading = Undefined\<rparr>])) = Some 360
   \<and> smoothedAzimuth (fst (ingestAll (constructor, loadedWindow)
      [DeviceOrientationAbsolute
         \<lparr>alpha = Some (719 / 2), beta = Some 90, gamma = Some 0,
          webkitCompassHeading = Undefined\<rparr>])) = Some 360"
  by code_simp

text \<open>
  C1 (amended). After every ingest, for every sequence of samples from any heading source
  whose \<open>alpha\<close> and platform compass heading, when present, lie in \<open>[0, 360]\<close>: the raw
  azimuth, when non-null, lies in the closed range \<open>[0, 360]\<close>, and so does the smoothed
  azimuth.
\<close>

theorem azimuth_closed_range:
  assumes "\<forall>s \<in> set samples. validSample s"
  shows "(\<forall>a. azimuth (fst (ingestAll (constructor, w) samples)) = Some a \<longrightarrow> 0 \<le> a \<and> a \<le> 360)
    \<and> (\<forall>a. smoothedAzimuth (fst (ingestAll (constructor, w) samples)) = Some a \<longrightarrow>
          0 \<le> a \<and> a \<le> 360)"
proof -
  have "rangeInvariant (fst (constructor, w))" by (simp add: rangeInvariant_constructor)
  then have "rangeInvariant (fst (ingestAll (constructor, w) samples))"
    using assms by (rule rangeInvariant_ingestAll)
  then show ?thesis by (simp add: rangeInvariant_def closedRange_def split: option.splits)
qed

theorem azimuth_closed_range_witness:
  "validSample (DeviceOrientation
      \<lparr>alpha = Some 0, beta = None, gamma = None, webkitCompassHeading = Undefined\<rparr>)
   \<and> closedRange (azimuth (fst (ingestAll (constructor, loadedWindow)
        [DeviceOrientation
          \<lparr>alpha = Some 0, beta = None, gamma = None, webkitCompassHeading = Undefined\<rparr>])))
   \<and> closedRange (smoothedAzimuth (fst (ingestAll (constructor, loadedWindow)
        [DeviceOrientation
          \<lparr>alpha = Some 0, beta = None, gamma = None, webkitCompassHeading = Undefined\<rparr>])))"
  using azimuth_closed_range
    [where w = loadedWindow and samples = "[DeviceOrientation
           \<lparr>alpha = Some 0, beta = None, gamma = None, webkitCompassHeading = Undefined\<rparr>]"]
  by (simp add: validEvent_def angle_def closedRange_def split: option.splits)

section \<open>Pitch\<close>

text \<open>
  C7, as the specification has it, fails: the subtraction \<open>beta - 90\<close> is a double
  before it is rounded to an integer. For \<open>beta = 0.5 - 2\<^sup>-\<^sup>5\<^sup>4\<close>, a double inside
  \<open>[-180, 180]\<close>, the difference rounds to the double -89.5, which \<^verbatim>\<open>Math.round\<close> takes
  to -89 on both paths, where \<open>round (beta - 90)\<close> is -90.
\<close>

theorem pitch_round_counterexample:
  "pitch (manager (handleOrientationAbsolute constructor loadedWindow
      \<lparr>alpha = None, beta = Some (1 / 2 - 1 / 2 ^ 54), gamma = None,
       webkitCompassHeading = Undefined\<rparr>)) = Some (- 89)
   \<and> pitch (manager (handleOrientation constructor loadedWindow
      \<lparr>alpha = None, beta = Some (1 / 2 - 1 / 2 ^ 54), gamma = None,
       webkitCompassHeading = Undefined\<rparr>)) = Some (- 89)
   \<and> specPitch (1 / 2 - 1 / 2 ^ 54) = - 90
   \<and> fl (1 / 2 - 1 / 2 ^ 54) = 1 / 2 - 1 / 2 ^ 54
   \<and> (- 180 :: rat) \<le> 1 / 2 - 1 / 2 ^ 54 \<and> (1 / 2 - 1 / 2 ^ 54 :: rat) \<le> 180"
  by code_simp

text \<open>
  C7 (amended). On either path, a sample with a non-null \<open>beta\<close> stores the pitch
  \<^verbatim>\<open>Math.round\<close> of the double \<open>beta - 90\<close>, clamped to \<open>[-90, 90]\<close>; that is
  \<open>round (beta - 90)\<close> clamped whenever the subtraction is exact, as it is for every
  \<open>beta\<close> of whole degrees in \<open>[-180, 180]\<close>. The pitch is updated before the azimuth
  is derived: the outcome of the sample does not depend on the pitch stored before it,
  and on each of the three sources the azimuth of the sample is compensated according to
  the pitch just derived from its \<open>beta\<close>. After any sequence of samples the pitch is
  null or in \<open>[-90, 90]\<close>.
\<close>

theorem pitch_clamped_first:
  "pitch (manager (handleOrientationAbsolute this w (event\<lparr>beta := Some b\<rparr>))) = Some (pitchOf b)
   \<and> pitch (manager (handleOrientation this w (event\<lparr>beta := Some b\<rparr>))) = Some (pitchOf b)
   \<and> pitchOf b = max (- 90) (min 90 (round (fl (b - 90))))
   \<and> - 90 \<le> pitchOf b \<and> pitchOf b \<le> 90
   \<and> (fl (b - 90) = b - 90 \<longrightarrow> pitchOf b = max (- 90) (min 90 (round (b - 90))))
   \<and> (- 180 \<le> k \<and> k \<le> 180 \<longrightarrow> pitchOf (of_int k) = max (- 90) (min 90 (k - 90)))
   \<and> manager (handleOrientationAbsolute (this\<lparr>pitch := p\<rparr>) w (event\<lparr>beta := Some b\<rparr>)) =
       manager (handleOrientationAbsolute this w (event\<lparr>beta := Some b\<rparr>))
   \<and> manager (handleOrientation (this\<lparr>pitch := p\<rparr>) w (event\<lparr>beta := Some b\<rparr>)) =
       manager (handleOrientation this w (event\<lparr>beta := Some b\<rparr>))
   \<and> azimuth (manager (handleOrientationAbsolute this w
         (event\<lparr>alpha := Some a, beta := Some b\<rparr>))) =
       Some (Math_round (if 45 < pitchOf b then js_rem (fl (a + 180)) 360 else a))
   \<and> azimuth (manager (handleOrientation this w
         (event\<lparr>beta := Some b, webkitCompassHeading := Number h\<rparr>))) =
       Some (Math_round (if 45 < pitchOf b then js_rem (fl (h + 180)) 360 else h))
   \<and> azimuth (manager (handleOrientation this w
         (event\<lparr>beta := Some b, webkitCompassHeading := Undefined, alpha := Some a\<rparr>))) =
       Some (Math_round
         (if 45 < pitchOf b then js_rem (fl (fallbackCandidate a + 180)) 360
          else fallbackCandidate a))
   \<and> pitchRange (pitch (fst (ingestAll (constructor, w) samples)))"
proof -
  have "pitchRange (pitch (fst (constructor, w)))" by (simp add: constructor_def pitchRange_def)
  then have r: "pitchRange (pitch (fst (ingestAll (constructor, w) samples)))"
    by (rule pitchRange_ingestAll)
  have e: "fl (b - 90) = b - 90 \<longrightarrow> pitchOf b = max (- 90) (min 90 (round (b - 90)))"
    using pitchOf_exact [of b] by (simp add: specPitch_def)
  have i: "- 180 \<le> k \<and> k \<le> 180 \<longrightarrow> pitchOf (of_int k) = max (- 90) (min 90 (k - 90))"
  proof
    assume "- 180 \<le> k \<and> k \<le> 180"
    then have "pitchOf (of_int k) = specPitch (of_int k)" by (intro pitchOf_of_int) simp_all
    moreover have "round (of_int k - 90 :: rat) = k - 90"
      using round_of_int [of "k - 90", where ?'a = rat] by simp
    ultimately show "pitchOf (of_int k) = max (- 90) (min 90 (k - 90))"
      by (simp add: specPitch_def)
  qed
  have a1: "azimuth (manager (handleOrientationAbsolute this w
         (event\<lparr>alpha := Some a, beta := Some b\<rparr>))) =
       Some (Math_round (if 45 < pitchOf b then js_rem (fl (a + 180)) 360 else a))"
    by (simp add: azimuth_handleOrientationAbsolute js_gt_def)
  have a2: "azimuth (manager (handleOrientation this w
         (event\<lparr>beta := Some b, webkitCompassHeading := Number h\<rparr>))) =
       Some (Math_round (if 45 < pitchOf b then js_rem (fl (h + 180)) 360 else h))"
    by (simp add: manager_handleOrientation Let_def storeAzimuth_fields pitch_setPitch_Some
        js_gt_def)
  have a3: "azimuth (manager (handleOrientation this w
         (event\<lparr>beta := Some b, webkitCompassHeading := Undefined, alpha := Some a\<rparr>))) =
       Some (Math_round
         (if 45 < pitchOf b then js_rem (fl (fallbackCandidate a + 180)) 360
          else fallbackCandidate a))"
    by (simp add: manager_handleOrientation Let_def storeAzimuth_fields pitch_setPitch_Some
        js_gt_def)
  have u: "pitchOf b = max (- 90) (min 90 (round (fl (b - 90))))" by (simp add: pitchOf_def)
  have s1: "pitch (manager (handleOrientationAbsolute this w (event\<lparr>beta := Some b\<rparr>))) =
      Some (pitchOf b)"
    by (simp add: pitch_handleOrientationAbsolute pitch_setPitch_Some)
  have s2: "pitch (manager (handleOrientation this w (event\<lparr>beta := Some b\<rparr>))) =
      Some (pitchOf b)"
    by (simp add: pitch_handleOrientation pitch_setPitch_Some)
  note f1 = handleOrientationAbsolute_forgets_pitch
      [where this = this and p = p and w = w and event = event and b = b]
  note f2 = handleOrientation_forgets_pitch
      [where this = this and p = p and w = w and event = event and b = b]
  note lo = pitchOf_range [of b, THEN conjunct1]
  note hi = pitchOf_range [of b, THEN conjunct2]
  from s1 s2 u lo hi e i f1 f2 a1 a2 a3 r show ?thesis by (intro conjI)
qed

theorem pitch_clamped_first_witness:
  "pitch (manager (handleOrientationAbsolute constructor loadedWindow
      (\<lparr>alpha = Some 10, beta = None, gamma = None, webkitCompassHeading = Undefined\<rparr>
        \<lparr>beta := Some 140\<rparr>))) = Some (pitchOf 140)
   \<and> pitchOf 140 = 50
   \<and> fl (140 - 90 :: rat) = 140 - 90
   \<and> pitchOf 140 = max (- 90) (min 90 (round (140 - 90 :: rat)))
   \<and> (- 180 :: int) \<le> 140 \<and> (140 :: int) \<le> 180
   \<and> pitchOf (of_int 140) = max (- 90) (min 90 (140 - 90))"
proof -
  let ?e = "\<lparr>alpha = Some 10, beta = None, gamma = None, webkitCompassHeading = Undefined\<rparr>"
  note T = pitch_clamped_first
      [where this = constructor and w = loadedWindow and event = ?e and b = 140 and k = 140
        and p = None and a = 10 and h = 0 and samples = "[]"]
  have p: "pitchOf 140 = 50" by code_simp
  have f: "fl (140 - 90 :: rat) = 140 - 90" by code_simp
  have k: "(- 180 :: int) \<le> 140 \<and> (140 :: int) \<le> 180" by simp
  from T have t1: "pitch (manager (handleOrientationAbsolute constructor loadedWindow
      (?e\<lparr>beta := Some 140\<rparr>))) = Some (pitchOf 140)" by (rule conjunct1)
  from T f have t2: "pitchOf 140 = max (- 90) (min 90 (round (140 - 90 :: rat)))" by blast
  from T k have t3: "pitchOf (of_int 140) = max (- 90) (min 90 (140 - 90))" by blast
  from t1 p f t2 k t3 show ?thesis by (intro conjI) simp_all
qed

section \<open>Samples with null fields\<close>

text \<open>
  C8. A sample whose \<open>alpha\<close> and \<open>beta\<close> are null (and, on the fallback path, whose
  compass heading is undefined) changes nothing but \<open>hasReceivedData\<close>: azimuth, pitch,
  smoothed azimuth and buffer are the ones before. The assignments of the handlers and
  \<^verbatim>\<open>updateDisplay\<close> cannot throw. The closing call of \<^verbatim>\<open>updateMapMarker\<close> can: for any
  sample, a handler ends normally when no map manager is set or the smoothed azimuth is
  still null, and throws a \<^verbatim>\<open>TypeError\<close> otherwise, since \<^verbatim>\<open>MapManager\<close> has no method
  \<^verbatim>\<open>updateUserLocationRotation\<close>. So on the loaded page the first sample that stores an
  azimuth throws, and so does a sample with null fields that follows it. A compass
  heading that is present but null is not an absent one: such a sample stores the
  azimuth 0, or 180 when the stored pitch is above 45.
\<close>

theorem null_sample_noop:
  "manager (handleOrientationAbsolute this w (event\<lparr>alpha := None, beta := None\<rparr>)) =
     this\<lparr>hasReceivedData := True\<rparr>
   \<and> manager (handleOrientation this w
        (event\<lparr>alpha := None, beta := None, webkitCompassHeading := Undefined\<rparr>)) =
     this\<lparr>hasReceivedData := True\<rparr>
   \<and> fst (listener (this, w) (DeviceOrientationAbsolute (event\<lparr>alpha := None, beta := None\<rparr>))) =
     this\<lparr>hasReceivedData := True\<rparr>
   \<and> fst (listener (this, w)
        (DeviceOrientation
          (event\<lparr>alpha := None, beta := None, webkitCompassHeading := Undefined\<rparr>))) =
     this\<lparr>hasReceivedData := True\<rparr>
   \<and> azimuth (manager (handleOrientation this w
        (event\<lparr>alpha := None, beta := None, webkitCompassHeading := Null\<rparr>))) =
     Some (if js_gt (pitch this) 45 then 180 else 0)
   \<and> completion (handleOrientationAbsolute this w (event\<lparr>alpha := None, beta := None\<rparr>)) =
     (if mapManager w = None \<or> smoothedAzimuth this = None then Normal else Throw TypeError)
   \<and> completion (handleOrientation this w
        (event\<lparr>alpha := None, beta := None, webkitCompassHeading := Undefined\<rparr>)) =
     (if mapManager w = None \<or> smoothedAzimuth this = None then Normal else Throw TypeError)
   \<and> completion (handleOrientationAbsolute this w anyEvent) =
     (if mapManager w = None \<or>
         smoothedAzimuth (manager (handleOrientationAbsolute this w anyEvent)) = None
      then Normal else Throw TypeError)
   \<and> completion (handleOrientation this w anyEvent) =
     (if mapManager w = None \<or>
         smoothedAzimuth (manager (handleOrientation this w anyEvent)) = None
      then Normal else Throw TypeError)
   \<and> completion (handleOrientationAbsolute constructor loadedWindow
        \<lparr>alpha = Some 10, beta = Some 90, gamma = Some 0, webkitCompassHeading = Undefined\<rparr>) =
     Throw TypeError
   \<and> completion (handleOrientation (constructor\<lparr>smoothedAzimuth := Some 10\<rparr>) loadedWindow
        \<lparr>alpha = None, beta = None, gamma = None, webkitCompassHeading = Undefined\<rparr>) =
     Throw TypeError"
proof -
  have m1: "manager (handleOrientationAbsolute this w (event\<lparr>alpha := None, beta := None\<rparr>)) =
     this\<lparr>hasReceivedData := True\<rparr>"
    by (simp add: manager_handleOrientationAbsolute markReceived_eq setPitch_None)
  have m2: "manager (handleOrientation this w
        (event\<lparr>alpha := None, beta := None, webkitCompassHeading := Undefined\<rparr>)) =
     this\<lparr>hasReceivedData := True\<rparr>"
    by (simp add: manager_handleOrientation markReceived_eq setPitch_None)
  have l1: "fst (listener (this, w)
        (DeviceOrientationAbsolute (event\<lparr>alpha := None, beta := None\<rparr>))) =
     this\<lparr>hasReceivedData := True\<rparr>"
    by (simp add: Let_def manager_handleOrientationAbsolute markReceived_eq setPitch_None)
  have l2: "fst (listener (this, w)
        (DeviceOrientation
          (event\<lparr>alpha := None, beta := None, webkitCompassHeading := Undefined\<rparr>))) =
     this\<lparr>hasReceivedData := True\<rparr>"
    by (simp add: Let_def manager_handleOrientation markReceived_eq setPitch_None)
  have nh: "azimuth (manager (handleOrientation this w
        (event\<lparr>alpha := None, beta := None, webkitCompassHeading := Null\<rparr>))) =
     Some (if js_gt (pitch this) 45 then 180 else 0)"
  proof -
    have "Math_round (js_rem (fl (0 + 180)) 360) = 180" by code_simp
    moreover have "Math_round 0 = 0" by code_simp
    ultimately show ?thesis
      by (simp add: manager_handleOrientation Let_def storeAzimuth_fields setPitch_None
          markReceived_fields)
  qed
  have c1: "completion (handleOrientationAbsolute this w e) =
     (if mapManager w = None \<or> smoothedAzimuth (manager (handleOrientationAbsolute this w e)) = None
      then Normal else Throw TypeError)" for e
    by (simp only: completion_handleOrientationAbsolute updateMapMarker_cases)
  have c2: "completion (handleOrientation this w e) =
     (if mapManager w = None \<or> smoothedAzimuth (manager (handleOrientation this w e)) = None
      then Normal else Throw TypeError)" for e
    by (simp only: completion_handleOrientation updateMapMarker_cases)
  have n1: "completion (handleOrientationAbsolute this w (event\<lparr>alpha := None, beta := None\<rparr>)) =
     (if mapManager w = None \<or> smoothedAzimuth this = None then Normal else Throw TypeError)"
    using c1 [of "event\<lparr>alpha := None, beta := None\<rparr>"] by (simp add: m1)
  have n2: "completion (handleOrientation this w
        (event\<lparr>alpha := None, beta := None, webkitCompassHeading := Undefined\<rparr>)) =
     (if mapManager w = None \<or> smoothedAzimuth this = None then Normal else Throw TypeError)"
    using c2 [of "event\<lparr>alpha := None, beta := None, webkitCompassHeading := Undefined\<rparr>"]
    by (simp add: m2)
  have x1: "completion (handleOrientationAbsolute constructor loadedWindow
        \<lparr>alpha = Some 10, beta = Some 90, gamma = Some 0, webkitCompassHeading = Undefined\<rparr>) =
     Throw TypeError"
    by code_simp
  have x2: "completion (handleOrientation (constructor\<lparr>smoothedAzimuth := Some 10\<rparr>) loadedWindow
        \<lparr>alpha = None, beta = None, gamma = None, webkitCompassHeading = Undefined\<rparr>) =
     Throw TypeError"
    by code_simp
  show ?thesis
    using m1 m2 l1 l2 nh n1 n2 c1 [of anyEvent] c2 [of anyEvent] x1 x2 by (intro conjI)
qed

theorem null_sample_noop_witness:
  "manager (handleOrientation constructor bareWindow
     \<lparr>alpha = None, beta = None, gamma = Some 3, webkitCompassHeading = Undefined\<rparr>) =
   constructor\<lparr>hasReceivedData := True\<rparr>
   \<and> completion (handleOrientation constructor bareWindow
     \<lparr>alpha = None, beta = None, gamma = Some 3, webkitCompassHeading = Undefined\<rparr>) = Normal"
  using null_sample_noop
    [where this = constructor and w = bareWindow and
      event = "\<lparr>alpha = None, beta = None, gamma = Some 3, webkitCompassHeading = Undefined\<rparr>"]
  by (simp add: bareWindow_def)

text \<open>
  C9. On the absolute path the azimuth is only updated when both \<open>alpha\<close> and \<open>beta\<close> are
  non-null: with \<open>alpha\<close> present and \<open>beta\<close> null nothing changes but
  \<open>hasReceivedData\<close>; with \<open>alpha\<close> null and \<open>beta\<close> present azimuth, smoothed azimuth and
  buffer are kept; with both present the azimuth is the rounded, tilt-compensated
  \<open>alpha\<close>.
\<close>

theorem absolute_needs_alpha_and_beta:
  "manager (handleOrientationAbsolute this w (event\<lparr>alpha := Some a, beta := None\<rparr>)) =
     this\<lparr>hasReceivedData := True\<rparr>
   \<and> azimuth (manager (handleOrientationAbsolute this w (event\<lparr>alpha := None, beta := Some b\<rparr>))) =
       azimuth this
   \<and> smoothedAzimuth
        (manager (handleOrientationAbsolute this w (event\<lparr>alpha := None, beta := Some b\<rparr>))) =
       smoothedAzimuth this
   \<and> azimuthBuffer
        (manager (handleOrientationAbsolute this w (event\<lparr>alpha := None, beta := Some b\<rparr>))) =
       azimuthBuffer this
   \<and> azimuth (manager (handleOrientationAbsolute this w
         (event\<lparr>alpha := Some a, beta := Some b\<rparr>))) =
       Some (Math_round
         (if max (- 90) (min 90 (round (fl (b - 90)))) > 45 then js_rem (fl (a + 180)) 360 else a))"
  by (simp add: manager_handleOrientationAbsolute markReceived_eq setPitch_None
      setPitch_frame storeAzimuth_fields pitchOf_def js_gt_def)

theorem absolute_needs_alpha_and_beta_witness:
  "manager (handleOrientationAbsolute constructor loadedWindow
     \<lparr>alpha = Some 123, beta = None, gamma = None, webkitCompassHeading = Undefined\<rparr>) =
   constructor\<lparr>hasReceivedData := True\<rparr>"
  using absolute_needs_alpha_and_beta
    [where this = constructor and a = 123 and w = loadedWindow and
      event = "\<lparr>alpha = None, beta = None, gamma = None, webkitCompassHeading = Undefined\<rparr>"]
  by simp

section \<open>Smoothing against the specification\<close>

text \<open>
  C3. Given the buffer as it stands after the new reading has been pushed (non-negative
  readings, as raw azimuths are), \<open>smoothAzimuth\<close> returns what the specification
  describes: the plain mean rounded to the nearest integer, unless the buffer holds a
  value below 90 and a value above 270; then 360 is added to every value below 180, and
  the mean is reduced modulo 360 before rounding. The buffer 350, 355, 358, 2, 5 gives
  358 and the buffer 10, 12, 11, 13, 12 gives 12.
\<close>

theorem smoothAzimuth_spec:
  assumes "\<forall>v \<in> set (azimuthBuffer this). 0 \<le> v" "0 \<le> x"
  shows "snd (smoothAzimuth this x) = specSmooth (azimuthBuffer (fst (smoothAzimuth this x)))
    \<and> snd (smoothAzimuth (constructor\<lparr>azimuthBuffer := [350, 355, 358, 2]\<rparr>) 5) = 358
    \<and> azimuthBuffer (fst (smoothAzimuth (constructor\<lparr>azimuthBuffer := [350, 355, 358, 2]\<rparr>) 5)) =
        [350, 355, 358, 2, 5]
    \<and> snd (smoothAzimuth (constructor\<lparr>azimuthBuffer := [10, 12, 11, 13]\<rparr>) 12) = 12
    \<and> azimuthBuffer (fst (smoothAzimuth (constructor\<lparr>azimuthBuffer := [10, 12, 11, 13]\<rparr>) 12)) =
        [10, 12, 11, 13, 12]"
proof -
  let ?buf = "pushShift (azimuthBuffer this) x"
  have "\<forall>v \<in> set ?buf. 0 \<le> v"
    using set_pushShift [of "azimuthBuffer this" x] assms by auto
  then have "Math_round (average ?buf) = specSmooth ?buf"
    using pushShift_not_Nil by (intro average_specSmooth)
  then have "snd (smoothAzimuth this x) = specSmooth (azimuthBuffer (fst (smoothAzimuth this x)))"
    by (simp add: smoothAzimuth_fields)
  moreover have "snd (smoothAzimuth (constructor\<lparr>azimuthBuffer := [350, 355, 358, 2]\<rparr>) 5) = 358"
    by code_simp
  moreover have
    "azimuthBuffer (fst (smoothAzimuth (constructor\<lparr>azimuthBuffer := [350, 355, 358, 2]\<rparr>) 5)) =
       [350, 355, 358, 2, 5]"
    by code_simp
  moreover have "snd (smoothAzimuth (constructor\<lparr>azimuthBuffer := [10, 12, 11, 13]\<rparr>) 12) = 12"
    by code_simp
  moreover have
    "azimuthBuffer (fst (smoothAzimuth (constructor\<lparr>azimuthBuffer := [10, 12, 11, 13]\<rparr>) 12)) =
       [10, 12, 11, 13, 12]"
    by code_simp
  ultimately show ?thesis by simp
qed

theorem smoothAzimuth_spec_witness:
  "list_all (\<lambda>v. 0 \<le> v) (azimuthBuffer (constructor\<lparr>azimuthBuffer := [359, 1, 0, 358, 2]\<rparr>))
   \<and> (0::int) \<le> 3
   \<and> snd (smoothAzimuth (constructor\<lparr>azimuthBuffer := [359, 1, 0, 358, 2]\<rparr>) 3) =
       specSmooth
         (azimuthBuffer (fst (smoothAzimuth (constructor\<lparr>azimuthBuffer := [359, 1, 0, 358, 2]\<rparr>) 3)))"
  using smoothAzimuth_spec [where this = "constructor\<lparr>azimuthBuffer := [359, 1, 0, 358, 2]\<rparr>" and x = 3]
  by simp

text \<open>
  C5. The buffer never holds more than 5 readings, whatever the samples. Fed with a
  list of raw azimuths it holds the last five of them in arrival order, so the oldest
  reading is the one evicted: after six readings the buffer is the second to the sixth,
  and the smoothed value of the sixth call is computed from those five alone.
\<close>

theorem buffer_fifo:
  "length (azimuthBuffer (fst (ingestAll (constructor, w) samples))) \<le> 5
   \<and> azimuthBuffer (feed constructor xs) = drop (length xs - 5) xs
   \<and> azimuthBuffer (feed constructor [a1, a2, a3, a4, a5, a6]) = [a2, a3, a4, a5, a6]
   \<and> snd (smoothAzimuth (feed constructor [a1, a2, a3, a4, a5]) a6) =
       Math_round (average [a2, a3, a4, a5, a6])
   \<and> azimuthBuffer (fst (ingestAll (constructor, w)
        [DeviceOrientationAbsolute
           \<lparr>alpha = Some 100, beta = Some 90, gamma = None, webkitCompassHeading = Undefined\<rparr>,
         DeviceOrientationAbsolute
           \<lparr>alpha = Some 20, beta = Some 90, gamma = None, webkitCompassHeading = Undefined\<rparr>,
         DeviceOrientationAbsolute
           \<lparr>alpha = Some 30, beta = Some 90, gamma = None, webkitCompassHeading = Undefined\<rparr>,
         DeviceOrientationAbsolute
           \<lparr>alpha = Some 40, beta = Some 90, gamma = None, webkitCompassHeading = Undefined\<rparr>,
         DeviceOrientationAbsolute
           \<lparr>alpha = Some 50, beta = Some 90, gamma = None, webkitCompassHeading = Undefined\<rparr>,
         DeviceOrientationAbsolute
           \<lparr>alpha = Some 60, beta = Some 90, gamma = None, webkitCompassHeading = Undefined\<rparr>])) =
       [20, 30, 40, 50, 60]
   \<and> smoothedAzimuth (fst (ingestAll (constructor, w)
        [DeviceOrientationAbsolute
           \<lparr>alpha = Some 100, beta = Some 90, gamma = None, webkitCompassHeading = Undefined\<rparr>,
         DeviceOrientationAbsolute
           \<lparr>alpha = Some 20, beta = Some 90, gamma = None, webkitCompassHeading = Undefined\<rparr>,
         DeviceOrientationAbsolute
           \<lparr>alpha = Some 30, beta = Some 90, gamma = None, webkitCompassHeading = Undefined\<rparr>,
         DeviceOrientationAbsolute
           \<lparr>alpha = Some 40, beta = Some 90, gamma = None, webkitCompassHeading = Undefined\<rparr>,
         DeviceOrientationAbsolute
           \<lparr>alpha = Some 50, beta = Some 90, gamma = None, webkitCompassHeading = Undefined\<rparr>,
         DeviceOrientationAbsolute
           \<lparr>alpha = Some 60, beta = Some 90, gamma = None, webkitCompassHeading = Undefined\<rparr>])) =
       Some 40"
proof -
  have e: "azimuthBuffer constructor = []" by (simp add: constructor_def)
  have b: "azimuthBuffer (feed constructor ys) = drop (length ys - 5) ys" for ys
    using azimuthBuffer_feed [of constructor ys] by (simp add: e)
  have l: "length (azimuthBuffer (fst (ingestAll (constructor, w) samples))) \<le> 5"
    by (rule length_ingestAll) (simp add: e)
  have s6: "azimuthBuffer (feed constructor [a1, a2, a3, a4, a5, a6]) = [a2, a3, a4, a5, a6]"
    by (simp add: b)
  have v6: "snd (smoothAzimuth (feed constructor [a1, a2, a3, a4, a5]) a6) =
       Math_round (average [a2, a3, a4, a5, a6])"
    by (simp add: smoothAzimuth_fields b pushShift_def bufferSize_def)
  have x1: "azimuthBuffer (fst (ingestAll (constructor, bareWindow)
        [DeviceOrientationAbsolute
           \<lparr>alpha = Some 100, beta = Some 90, gamma = None, webkitCompassHeading = Undefined\<rparr>,
         DeviceOrientationAbsolute
           \<lparr>alpha = Some 20, beta = Some 90, gamma = None, webkitCompassHeading = Undefined\<rparr>,
         DeviceOrientationAbsolute
           \<lparr>alpha = Some 30, beta = Some 90, gamma = None, webkitCompassHeading = Undefined\<rparr>,
         DeviceOrientationAbsolute
           \<lparr>alpha = Some 40, beta = Some 90, gamma = None, webkitCompassHeading = Undefined\<rparr>,
         DeviceOrientationAbsolute
           \<lparr>alpha = Some 50, beta = Some 90, gamma = None, webkitCompassHeading = Undefined\<rparr>,
         DeviceOrientationAbsolute
           \<lparr>alpha = Some 60, beta = Some 90, gamma = None, webkitCompassHeading = Undefined\<rparr>])) =
       [20, 30, 40, 50, 60]"
    by code_simp
  have x2: "smoothedAzimuth (fst (ingestAll (constructor, bareWindow)
        [DeviceOrientationAbsolute
           \<lparr>alpha = Some 100, beta = Some 90, gamma = None, webkitCompassHeading = Undefined\<rparr>,
         DeviceOrientationAbsolute
           \<lparr>alpha = Some 20, beta = Some 90, gamma = None, webkitCompassHeading = Undefined\<rparr>,
         DeviceOrientationAbsolute
           \<lparr>alpha = Some 30, beta = Some 90, gamma = None, webkitCompassHeading = Undefined\<rparr>,
         DeviceOrientationAbsolute
           \<lparr>alpha = Some 40, beta = Some 90, gamma = None, webkitCompassHeading = Undefined\<rparr>,
         DeviceOrientationAbsolute
           \<lparr>alpha = Some 50, beta = Some 90, gamma = None, webkitCompassHeading = Undefined\<rparr>,
         DeviceOrientationAbsolute
           \<lparr>alpha = Some 60, beta = Some 90, gamma = None, webkitCompassHeading = Undefined\<rparr>])) =
       Some 40"
    by code_simp
  note y1 = x1 [unfolded fst_ingestAll_window [of constructor bareWindow _ w]]
  note y2 = x2 [unfolded fst_ingestAll_window [of constructor bareWindow _ w]]
  from l b [of xs] s6 v6 y1 y2 show ?thesis by (intro conjI)
qed

theorem buffer_fifo_witness:
  "azimuthBuffer (feed constructor [100, 20, 30, 40, 50, 60]) = [20, 30, 40, 50, 60]
   \<and> snd (smoothAzimuth (feed constructor [100, 20, 30, 40, 50]) 60) =
       Math_round (average [20, 30, 40, 50, 60])"
  using buffer_fifo [where ?a1.0 = 100 and ?a2.0 = 20 and ?a3.0 = 30 and ?a4.0 = 40 and ?a5.0 = 50
      and ?a6.0 = 60 and samples = "[]" and xs = "[]" and w = bareWindow]
  by simp

section \<open>Tilt compensation\<close>

text \<open>
  C4, as the specification has it, fails: what is stored is the compensated candidate
  rounded to an integer. With a pitch of 30 the candidate 10.5 is stored as 11, not
  unmodified; with a pitch of 50 the candidate 179.5 is stored as 360, where
  \<open>(179.5 + 180) mod 360\<close> is 359.5.
\<close>

theorem stored_azimuth_rounded_counterexample:
  "azimuth (manager (handleOrientationAbsolute constructor loadedWindow
      \<lparr>alpha = Some (21 / 2), beta = Some 120, gamma = None,
       webkitCompassHeading = Undefined\<rparr>)) = Some 11
   \<and> pitch (manager (handleOrientationAbsolute constructor loadedWindow
      \<lparr>alpha = Some (21 / 2), beta = Some 120, gamma = None,
       webkitCompassHeading = Undefined\<rparr>)) = Some 30
   \<and> specTilt (Some 30) (21 / 2) = 21 / 2
   \<and> azimuth (manager (handleOrientationAbsolute constructor loadedWindow
      \<lparr>alpha = Some (359 / 2), beta = Some 140, gamma = None,
       webkitCompassHeading = Undefined\<rparr>)) = Some 360
   \<and> pitch (manager (handleOrientationAbsolute constructor loadedWindow
      \<lparr>alpha = Some (359 / 2), beta = Some 140, gamma = None,
       webkitCompassHeading = Undefined\<rparr>)) = Some 50
   \<and> specTilt (Some 50) (359 / 2) = 719 / 2"
  by code_simp

text \<open>
  C4 (amended). On all three heading sources the stored azimuth is \<^verbatim>\<open>Math.round\<close> of
  the same rule applied to the candidate of the source (\<open>alpha\<close>, the platform compass
  heading, with null counting as 0, or the fallback candidate): the candidate plus 180,
  that sum a double, modulo 360 when the pitch of the engine is above 45, the candidate
  itself otherwise. The pitch is the one the engine holds once the sample's own \<open>beta\<close>
  has been taken in. For a candidate of whole degrees in \<open>[0, 360]\<close> the stored azimuth
  is exactly \<open>(candidate + 180) mod 360\<close> or the candidate. A pitch of 50 turns the
  candidate 10 into 190; a pitch of 30 leaves it at 10. Where the sum is not exact the
  double decides: with a pitch of 50 the candidate \<open>0.5 - 2\<^sup>-\<^sup>5\<^sup>4\<close> is compensated to
  180.5 and stored as 181.
\<close>

theorem tilt_compensation_uniform:
  assumes "0 \<le> c" "a \<le> 360"
  shows
   "azimuth (manager (handleOrientationAbsolute this w
        (event\<lparr>alpha := Some c, beta := Some b\<rparr>))) =
      Some (round (compensated
        (pitch (manager (handleOrientationAbsolute this w
           (event\<lparr>alpha := Some c, beta := Some b\<rparr>)))) c))
    \<and> azimuth (manager (handleOrientation this w
        (event\<lparr>webkitCompassHeading := Number c\<rparr>))) =
      Some (round (compensated
        (pitch (manager (handleOrientation this w
           (event\<lparr>webkitCompassHeading := Number c\<rparr>)))) c))
    \<and> azimuth (manager (handleOrientation this w
        (event\<lparr>webkitCompassHeading := Null\<rparr>))) =
      Some (round (compensated
        (pitch (manager (handleOrientation this w
           (event\<lparr>webkitCompassHeading := Null\<rparr>)))) 0))
    \<and> azimuth (manager (handleOrientation this w
        (event\<lparr>webkitCompassHeading := Undefined, alpha := Some a\<rparr>))) =
      Some (round (compensated
        (pitch (manager (handleOrientation this w
           (event\<lparr>webkitCompassHeading := Undefined, alpha := Some a\<rparr>))))
        (fallbackCandidate a)))
    \<and> compensated p c =
        (case p of None \<Rightarrow> c | Some v \<Rightarrow> if 45 < v then rmod (fl (c + 180)) 360 else c)
    \<and> (0 \<le> n \<and> n \<le> 360 \<longrightarrow>
         compensated p (of_int n) = specTilt p (of_int n)
         \<and> of_int (round (compensated p (of_int n))) = specTilt p (of_int n))
    \<and> specTilt (Some 50) 10 = 190
    \<and> specTilt (Some 30) 10 = 10
    \<and> compensated (Some 50) (1 / 2 - 1 / 2 ^ 54) = 361 / 2
    \<and> azimuth (manager (handleOrientationAbsolute constructor loadedWindow
         \<lparr>alpha = Some (1 / 2 - 1 / 2 ^ 54), beta = Some 140, gamma = None,
          webkitCompassHeading = Undefined\<rparr>)) = Some 181"
proof -
  have f: "0 \<le> fallbackCandidate a" using assms(2) by (rule fallbackCandidate_nonneg)
  have z: "(0::rat) \<le> 0" by simp
  have t1: "azimuth (manager (handleOrientationAbsolute this w
        (event\<lparr>alpha := Some c, beta := Some b\<rparr>))) =
      Some (round (compensated
        (pitch (manager (handleOrientationAbsolute this w
           (event\<lparr>alpha := Some c, beta := Some b\<rparr>)))) c))"
    using tilt_compensated [OF assms(1), of "Some (pitchOf b)"]
    by (simp add: azimuth_handleOrientationAbsolute pitch_handleOrientationAbsolute
        pitch_setPitch_Some Math_round_eq_round)
  have t2: "azimuth (manager (handleOrientation this w
        (event\<lparr>webkitCompassHeading := Number c\<rparr>))) =
      Some (round (compensated
        (pitch (manager (handleOrientation this w
           (event\<lparr>webkitCompassHeading := Number c\<rparr>)))) c))"
    by (simp only: azimuth_handleOrientation_heading tilt_compensated [OF assms(1)]
        Math_round_eq_round)
  have t3: "azimuth (manager (handleOrientation this w
        (event\<lparr>webkitCompassHeading := Null\<rparr>))) =
      Some (round (compensated
        (pitch (manager (handleOrientation this w
           (event\<lparr>webkitCompassHeading := Null\<rparr>)))) 0))"
    by (simp only: azimuth_handleOrientation_null tilt_compensated [OF z] Math_round_eq_round)
  have t4: "azimuth (manager (handleOrientation this w
        (event\<lparr>webkitCompassHeading := Undefined, alpha := Some a\<rparr>))) =
      Some (round (compensated
        (pitch (manager (handleOrientation this w
           (event\<lparr>webkitCompassHeading := Undefined, alpha := Some a\<rparr>))))
        (fallbackCandidate a)))"
    by (simp only: azimuth_handleOrientation_alpha tilt_compensated [OF f] Math_round_eq_round)
  have d: "compensated p c =
        (case p of None \<Rightarrow> c | Some v \<Rightarrow> if 45 < v then rmod (fl (c + 180)) 360 else c)"
    by (simp add: compensated_def)
  have i: "0 \<le> n \<and> n \<le> 360 \<longrightarrow>
         compensated p (of_int n) = specTilt p (of_int n)
         \<and> of_int (round (compensated p (of_int n))) = specTilt p (of_int n)"
  proof
    assume "0 \<le> n \<and> n \<le> 360"
    then have "compensated p (of_int n) = specTilt p (of_int n)"
      by (intro compensated_of_int) simp_all
    then show "compensated p (of_int n) = specTilt p (of_int n)
         \<and> of_int (round (compensated p (of_int n))) = specTilt p (of_int n)"
      by (simp add: round_specTilt_of_int)
  qed
  have e1: "specTilt (Some 50) 10 = 190" by code_simp
  have e2: "specTilt (Some 30) 10 = 10" by code_simp
  have e3: "compensated (Some 50) (1 / 2 - 1 / 2 ^ 54) = 361 / 2" by code_simp
  have e4: "azimuth (manager (handleOrientationAbsolute constructor loadedWindow
         \<lparr>alpha = Some (1 / 2 - 1 / 2 ^ 54), beta = Some 140, gamma = None,
          webkitCompassHeading = Undefined\<rparr>)) = Some 181"
    by code_simp
  from t1 t2 t3 t4 d i e1 e2 e3 e4 show ?thesis by (intro conjI)
qed

theorem tilt_compensation_uniform_witness:
  "(0::rat) \<le> 10 \<and> (90::rat) \<le> 360 \<and> (0::int) \<le> 10 \<and> (10::int) \<le> 360
   \<and> azimuth (manager (handleOrientationAbsolute constructor loadedWindow
        (\<lparr>alpha = None, beta = None, gamma = None, webkitCompassHeading = Undefined\<rparr>
          \<lparr>alpha := Some 10, beta := Some 140\<rparr>))) = Some 190
   \<and> compensated (Some 50) (of_int 10) = specTilt (Some 50) (of_int 10)
   \<and> of_int (round (compensated (Some 50) (of_int 10))) = specTilt (Some 50) (of_int 10)"
proof -
  let ?e = "\<lparr>alpha = None, beta = None, gamma = None, webkitCompassHeading = Undefined\<rparr>"
  note T = tilt_compensation_uniform
      [where c = 10 and a = 90 and this = constructor and w = loadedWindow and event = ?e
        and b = 140 and p = "Some 50" and n = 10]
  have h: "(0::rat) \<le> 10" "(90::rat) \<le> 360" by simp_all
  have k: "(0::int) \<le> 10 \<and> (10::int) \<le> 360" by simp
  have p1: "pitch (manager (handleOrientationAbsolute constructor loadedWindow
      (?e\<lparr>alpha := Some 10, beta := Some 140\<rparr>))) = Some 50"
    by code_simp
  have r: "round (compensated (Some 50) 10) = 190" by code_simp
  from T [OF h] have "azimuth (manager (handleOrientationAbsolute constructor loadedWindow
        (?e\<lparr>alpha := Some 10, beta := Some 140\<rparr>))) =
      Some (round (compensated
        (pitch (manager (handleOrientationAbsolute constructor loadedWindow
           (?e\<lparr>alpha := Some 10, beta := Some 140\<rparr>)))) 10))"
    by (rule conjunct1)
  then have a1: "azimuth (manager (handleOrientationAbsolute constructor loadedWindow
        (?e\<lparr>alpha := Some 10, beta := Some 140\<rparr>))) = Some 190"
    by (simp only: p1 r)
  from T [OF h] k have i: "compensated (Some 50) (of_int 10) = specTilt (Some 50) (of_int 10)
      \<and> of_int (round (compensated (Some 50) (of_int 10))) = specTilt (Some 50) (of_int 10)"
    by blast
  note i1 = i [THEN conjunct1] and i2 = i [THEN conjunct2]
  show ?thesis by (intro conjI a1 i1 i2) simp_all
qed

text \<open>
  C10. On the fallback path the tilt test reads the stored pitch. For a sample with a
  null \<open>beta\<close> the pitch is the one retained from earlier samples, and both branches,
  the compass heading and the device-relative \<open>alpha\<close>, compensate the azimuth according
  to it; while the pitch is still null no compensation is applied. A first sample with
  \<open>beta = 140\<close> leaves the pitch 50; a second one with a null \<open>beta\<close> and heading 10, or
  \<open>alpha = 350\<close>, is then stored as 190, and the same second sample alone, from the
  initial state, is stored as 10.
\<close>

theorem fallback_tilt_reads_stored_pitch:
  "azimuth (manager (handleOrientation this w
       (event\<lparr>beta := None, webkitCompassHeading := Number h\<rparr>))) =
     Some (Math_round (if js_gt (pitch this) 45 then js_rem (fl (h + 180)) 360 else h))
   \<and> azimuth (manager (handleOrientation this w
       (event\<lparr>beta := None, webkitCompassHeading := Undefined, alpha := Some a\<rparr>))) =
     Some (Math_round
       (if js_gt (pitch this) 45 then js_rem (fl (fallbackCandidate a + 180)) 360
        else fallbackCandidate a))
   \<and> pitch (manager (handleOrientation this w (event\<lparr>beta := None\<rparr>))) = pitch this
   \<and> js_gt (pitch this) 45 = (case pitch this of None \<Rightarrow> False | Some v \<Rightarrow> 45 < v)
   \<and> (pitch this = None \<longrightarrow>
        azimuth (manager (handleOrientation this w
          (event\<lparr>beta := None, webkitCompassHeading := Number h\<rparr>))) = Some (Math_round h)
        \<and> azimuth (manager (handleOrientation this w
          (event\<lparr>beta := None, webkitCompassHeading := Undefined, alpha := Some a\<rparr>))) =
            Some (Math_round (fallbackCandidate a)))
   \<and> azimuth (fst (ingestAll (constructor, w)
        [DeviceOrientation
           \<lparr>alpha = None, beta = Some 140, gamma = None, webkitCompassHeading = Undefined\<rparr>,
         DeviceOrientation
           \<lparr>alpha = None, beta = None, gamma = None, webkitCompassHeading = Number 10\<rparr>])) =
       Some 190
   \<and> azimuth (fst (ingestAll (constructor, w)
        [DeviceOrientation
           \<lparr>alpha = None, beta = None, gamma = None, webkitCompassHeading = Number 10\<rparr>])) =
       Some 10
   \<and> azimuth (fst (ingestAll (constructor, w)
        [DeviceOrientation
           \<lparr>alpha = None, beta = Some 140, gamma = None, webkitCompassHeading = Undefined\<rparr>,
         DeviceOrientation
           \<lparr>alpha = Some 350, beta = None, gamma = None, webkitCompassHeading = Undefined\<rparr>])) =
       Some 190
   \<and> azimuth (fst (ingestAll (constructor, w)
        [DeviceOrientation
           \<lparr>alpha = Some 350, beta = None, gamma = None, webkitCompassHeading = Undefined\<rparr>])) =
       Some 10"
proof -
  have h1: "azimuth (manager (handleOrientation this w
       (event\<lparr>beta := None, webkitCompassHeading := Number h\<rparr>))) =
     Some (Math_round (if js_gt (pitch this) 45 then js_rem (fl (h + 180)) 360 else h))"
    by (simp add: manager_handleOrientation Let_def storeAzimuth_fields setPitch_None
        markReceived_fields)
  have h2: "azimuth (manager (handleOrientation this w
       (event\<lparr>beta := None, webkitCompassHeading := Undefined, alpha := Some a\<rparr>))) =
     Some (Math_round
       (if js_gt (pitch this) 45 then js_rem (fl (fallbackCandidate a + 180)) 360
        else fallbackCandidate a))"
    by (simp add: manager_handleOrientation Let_def storeAzimuth_fields setPitch_None
        markReceived_fields)
  have p: "pitch (manager (handleOrientation this w (event\<lparr>beta := None\<rparr>))) = pitch this"
    by (simp add: pitch_handleOrientation setPitch_None)
  have g: "js_gt (pitch this) 45 = (case pitch this of None \<Rightarrow> False | Some v \<Rightarrow> 45 < v)"
    by (simp add: js_gt_def)
  have n: "pitch this = None \<longrightarrow>
        azimuth (manager (handleOrientation this w
          (event\<lparr>beta := None, webkitCompassHeading := Number h\<rparr>))) = Some (Math_round h)
        \<and> azimuth (manager (handleOrientation this w
          (event\<lparr>beta := None, webkitCompassHeading := Undefined, alpha := Some a\<rparr>))) =
            Some (Math_round (fallbackCandidate a))"
    using h1 h2 by (simp add: js_gt_def)
  have x1: "azimuth (fst (ingestAll (constructor, bareWindow)
        [DeviceOrientation
           \<lparr>alpha = None, beta = Some 140, gamma = None, webkitCompassHeading = Undefined\<rparr>,
         DeviceOrientation
           \<lparr>alpha = None, beta = None, gamma = None, webkitCompassHeading = Number 10\<rparr>])) =
       Some 190"
    by code_simp
  have x2: "azimuth (fst (ingestAll (constructor, bareWindow)
        [DeviceOrientation
           \<lparr>alpha = None, beta = None, gamma = None, webkitCompassHeading = Number 10\<rparr>])) =
       Some 10"
    by code_simp
  have x3: "azimuth (fst (ingestAll (constructor, bareWindow)
        [DeviceOrientation
           \<lparr>alpha = None, beta = Some 140, gamma = None, webkitCompassHeading = Undefined\<rparr>,
         DeviceOrientation
           \<lparr>alpha = Some 350, beta = None, gamma = None, webkitCompassHeading = Undefined\<rparr>])) =
       Some 190"
    by code_simp
  have x4: "azimuth (fst (ingestAll (constructor, bareWindow)
        [DeviceOrientation
           \<lparr>alpha = Some 350, beta = None, gamma = None, webkitCompassHeading = Undefined\<rparr>])) =
       Some 10"
    by code_simp
  note y1 = x1 [unfolded fst_ingestAll_window [of constructor bareWindow _ w]]
  note y2 = x2 [unfolded fst_ingestAll_window [of constructor bareWindow _ w]]
  note y3 = x3 [unfolded fst_ingestAll_window [of constructor bareWindow _ w]]
  note y4 = x4 [unfolded fst_ingestAll_window [of constructor bareWindow _ w]]
  from h1 h2 p g n y1 y2 y3 y4 show ?thesis by (intro conjI)
qed

theorem fallback_tilt_reads_stored_pitch_witness:
  "pitch (constructor\<lparr>pitch := Some 50\<rparr>) = Some 50
   \<and> azimuth (manager (handleOrientation (constructor\<lparr>pitch := Some 50\<rparr>) loadedWindow
        (\<lparr>alpha = None, beta = Some 0, gamma = None, webkitCompassHeading = Undefined\<rparr>
          \<lparr>beta := None, webkitCompassHeading := Undefined, alpha := Some 350\<rparr>))) = Some 190
   \<and> pitch constructor = None
   \<and> azimuth (manager (handleOrientation constructor loadedWindow
        (\<lparr>alpha = None, beta = Some 0, gamma = None, webkitCompassHeading = Undefined\<rparr>
          \<lparr>beta := None, webkitCompassHeading := Undefined, alpha := Some 350\<rparr>))) = Some 10"
proof -
  let ?e = "\<lparr>alpha = None, beta = Some 0, gamma = None, webkitCompassHeading = Undefined\<rparr>"
  note T1 = fallback_tilt_reads_stored_pitch
      [where this = "constructor\<lparr>pitch := Some 50\<rparr>" and w = loadedWindow and event = ?e
        and a = 350 and h = 10]
  note T2 = fallback_tilt_reads_stored_pitch
      [where this = constructor and w = loadedWindow and event = ?e and a = 350 and h = 10]
  have c: "pitch constructor = None" by (simp add: constructor_def)
  have r1: "Math_round (js_rem (fl (fallbackCandidate 350 + 180)) 360) = 190" by code_simp
  have r2: "Math_round (fallbackCandidate 350) = 10" by code_simp
  from T1 have "azimuth (manager (handleOrientation (constructor\<lparr>pitch := Some 50\<rparr>) loadedWindow
        (?e\<lparr>beta := None, webkitCompassHeading := Undefined, alpha := Some 350\<rparr>))) =
     Some (Math_round
       (if js_gt (pitch (constructor\<lparr>pitch := Some 50\<rparr>)) 45
        then js_rem (fl (fallbackCandidate 350 + 180)) 360 else fallbackCandidate 350))"
    by blast
  then have a1: "azimuth (manager (handleOrientation (constructor\<lparr>pitch := Some 50\<rparr>) loadedWindow
        (?e\<lparr>beta := None, webkitCompassHeading := Undefined, alpha := Some 350\<rparr>))) = Some 190"
    by (simp add: js_gt_def r1)
  from T2 c have "azimuth (manager (handleOrientation constructor loadedWindow
        (?e\<lparr>beta := None, webkitCompassHeading := Undefined, alpha := Some 350\<rparr>))) =
      Some (Math_round (fallbackCandidate 350))"
    by blast
  then have a2: "azimuth (manager (handleOrientation constructor loadedWindow
        (?e\<lparr>beta := None, webkitCompassHeading := Undefined, alpha := Some 350\<rparr>))) = Some 10"
    by (simp add: r2)
  from a1 a2 c show ?thesis by simp
qed

section \<open>The device-relative fallback\<close>

text \<open>
  C6, as the specification has it, fails at \<open>alpha = 0\<close>: the code computes
  \<open>360 - alpha\<close> with no reduction, so the candidate is 360 where
  \<open>(360 - alpha) mod 360\<close> is 0, and the stored azimuth is 360.
\<close>

theorem fallbackCandidate_zero_counterexample:
  "fallbackCandidate 0 = 360 \<and> rmod (360 - 0) 360 = 0
   \<and> azimuth (manager (handleOrientation constructor loadedWindow
        \<lparr>alpha = Some 0, beta = None, gamma = None, webkitCompassHeading = Undefined\<rparr>)) =
       Some 360"
  by code_simp

text \<open>
  C6 (amended). For a fallback sample with \<open>alpha\<close> in \<open>[0, 360]\<close> the candidate before
  tilt compensation is the double \<open>360 - alpha\<close>, not reduced modulo 360, and lies in
  \<open>[0, 360]\<close>. It equals \<open>(360 - alpha) mod 360\<close> whenever \<open>alpha\<close> is not 0 and the
  subtraction is exact, as for every \<open>alpha\<close> of whole degrees from 1 to 360. It is 360
  at \<open>alpha = 0\<close>, and also for an \<open>alpha\<close> so small that the difference rounds to 360,
  such as \<open>2\<^sup>-\<^sup>4\<^sup>6\<close>; for \<open>alpha = 0.5 + 2\<^sup>-\<^sup>5\<^sup>2\<close> it is 359.5. The stored azimuth is
  the rounded, tilt-compensated candidate; \<open>alpha = 90\<close> gives the candidate 270.
\<close>

theorem fallback_candidate:
  assumes "0 \<le> a" "a \<le> 360"
  shows "fallbackCandidate a = fl (360 - a)
    \<and> 0 \<le> fallbackCandidate a \<and> fallbackCandidate a \<le> 360
    \<and> (a \<noteq> 0 \<and> fl (360 - a) = 360 - a \<longrightarrow> fallbackCandidate a = rmod (360 - a) 360)
    \<and> (1 \<le> n \<and> n \<le> 360 \<longrightarrow> fallbackCandidate (of_int n) = rmod (360 - of_int n) 360)
    \<and> fallbackCandidate 0 = 360 \<and> rmod (360 - 0) 360 = 0
    \<and> fallbackCandidate (1 / 2 ^ 46) = 360 \<and> rmod (360 - 1 / 2 ^ 46) 360 = 360 - 1 / 2 ^ 46
    \<and> fallbackCandidate (1 / 2 + 1 / 2 ^ 52) = 719 / 2
    \<and> azimuth (manager (handleOrientation this w
         (event\<lparr>webkitCompassHeading := Undefined, alpha := Some a\<rparr>))) =
       Some (round (compensated
         (pitch (manager (handleOrientation this w
            (event\<lparr>webkitCompassHeading := Undefined, alpha := Some a\<rparr>))))
         (fallbackCandidate a)))
    \<and> fallbackCandidate 90 = 270"
proof -
  have d: "fallbackCandidate a = fl (360 - a)" by (simp add: fallbackCandidate_def)
  have r: "0 \<le> fallbackCandidate a" "fallbackCandidate a \<le> 360"
    using fl_angle [of "360 - a"] assms by (simp_all add: fallbackCandidate_def)
  have e: "a \<noteq> 0 \<and> fl (360 - a) = 360 - a \<longrightarrow> fallbackCandidate a = rmod (360 - a) 360"
  proof
    assume h: "a \<noteq> 0 \<and> fl (360 - a) = 360 - a"
    then have "rmod (360 - a) 360 = 360 - a" using assms by (intro rmod_id) simp_all
    with h show "fallbackCandidate a = rmod (360 - a) 360" by (simp add: fallbackCandidate_def)
  qed
  have i: "1 \<le> n \<and> n \<le> 360 \<longrightarrow> fallbackCandidate (of_int n) = rmod (360 - of_int n) 360"
  proof
    assume h: "1 \<le> n \<and> n \<le> 360"
    then have "fl (of_int (360 - n)) = of_int (360 - n)" by (intro fl_of_int) simp
    then have "fl (360 - of_int n) = 360 - of_int n" by simp
    moreover have "rmod (360 - of_int n) 360 = 360 - of_int n" using h by (intro rmod_id) simp_all
    ultimately show "fallbackCandidate (of_int n) = rmod (360 - of_int n) 360"
      by (simp add: fallbackCandidate_def)
  qed
  have z1: "fallbackCandidate 0 = 360" by code_simp
  have z2: "rmod (360 - 0) 360 = 0" by code_simp
  have s1: "fallbackCandidate (1 / 2 ^ 46) = 360" by code_simp
  have s2: "rmod (360 - 1 / 2 ^ 46) 360 = 360 - 1 / 2 ^ 46" by code_simp
  have s3: "fallbackCandidate (1 / 2 + 1 / 2 ^ 52) = 719 / 2" by code_simp
  have f: "0 \<le> fallbackCandidate a" by (rule r)
  have t: "azimuth (manager (handleOrientation this w
         (event\<lparr>webkitCompassHeading := Undefined, alpha := Some a\<rparr>))) =
       Some (round (compensated
         (pitch (manager (handleOrientation this w
            (event\<lparr>webkitCompassHeading := Undefined, alpha := Some a\<rparr>))))
         (fallbackCandidate a)))"
    by (simp only: azimuth_handleOrientation_alpha tilt_compensated [OF f] Math_round_eq_round)
  have n: "fallbackCandidate 90 = 270" by code_simp
  from d r e i z1 z2 s1 s2 s3 t n show ?thesis by (intro conjI)
qed

theorem fallback_candidate_witness:
  "(0::rat) \<le> 90 \<and> (90::rat) \<le> 360 \<and> (90::rat) \<noteq> 0 \<and> fl (360 - 90) = 360 - 90
   \<and> fallbackCandidate 90 = rmod (360 - 90) 360
   \<and> (1::int) \<le> 90 \<and> (90::int) \<le> 360
   \<and> fallbackCandidate (of_int 90) = rmod (360 - of_int 90) 360"
proof -
  note T = fallback_candidate
      [where a = 90 and n = 90 and this = constructor and w = loadedWindow and
        event = "\<lparr>alpha = None, beta = None, gamma = None, webkitCompassHeading = Undefined\<rparr>"]
  have h: "(0::rat) \<le> 90" "(90::rat) \<le> 360" by simp_all
  have x: "(90::rat) \<noteq> 0 \<and> fl (360 - 90) = 360 - 90" by code_simp
  have k: "(1::int) \<le> 90 \<and> (90::int) \<le> 360" by simp
  from T [OF h] x have c1: "fallbackCandidate 90 = rmod (360 - 90) 360" by blast
  from T [OF h] k have c2: "fallbackCandidate (of_int 90) = rmod (360 - of_int 90) 360" by blast
  from h x k c1 c2 show ?thesis by (intro conjI) simp_all
qed

end
